(* ===== verification/Prelude.thy ===== *)
theory Prelude
  imports Main "HOL-Library.Word"
begin

text \<open>
  Shared vocabulary of the development: the machine integers of the program, the outcome of a
  Rust computation that may unwind, the errors the crates report, the few operations of the
  Rust standard library the sources call (checked arithmetic, \<^verbatim>\<open>VecDeque\<close> search and removal,
  \<^verbatim>\<open>HashMap::retain\<close>), their laws, and the fact collections the component theories extend.
\<close>

unbundle bit_operations_syntax

named_theorems rust_std
  \<open>definitions of the standard-library operations of the model\<close>
named_theorems frame
  \<open>what an operation leaves alone\<close>
named_theorems inv_intros
  \<open>an operation keeps an invariant\<close>

section \<open>Machine integers\<close>

type_synonym u8 = "8 word"
type_synonym u16 = "16 word"
type_synonym u64 = "64 word"
type_synonym i32 = "32 word"
type_synonym bytes = "u8 list"

text \<open>
  \<^verbatim>\<open>usize\<close> is a natural number below two to the 64th; the checked operations write the bound out.
\<close>

definition usize_max :: nat where
  "usize_max = 2 ^ 64 - 1"

definition checked_add :: "nat \<Rightarrow> nat \<Rightarrow> nat option" where
  [rust_std]: "checked_add a b = (if a + b \<le> usize_max then Some (a + b) else None)"

definition checked_mul :: "nat \<Rightarrow> nat \<Rightarrow> nat option" where
  [rust_std]: "checked_mul a b = (if a * b \<le> usize_max then Some (a * b) else None)"

definition saturating_sub_u16 :: "u16 \<Rightarrow> u16 \<Rightarrow> u16" where
  [rust_std]: "saturating_sub_u16 a b = (if a < b then 0 else a - b)"

lemma unat_saturating_sub_u16: "unat (saturating_sub_u16 a b) = unat a - unat b"
  by (simp add: saturating_sub_u16_def word_less_nat_alt unat_sub_if')

section \<open>Computations that may unwind\<close>

text \<open>
  A Rust call returns a value or panics. \<open>catch_unwind\<close> is
  \<^verbatim>\<open>catch_unwind(..).unwrap_or(d)\<close>.
\<close>

datatype 'a outcome = Returned 'a | Panicked

definition catch_unwind :: "'a \<Rightarrow> 'a outcome \<Rightarrow> 'a" where
  [rust_std]: "catch_unwind d x = (case x of Returned v \<Rightarrow> v | Panicked \<Rightarrow> d)"

text \<open>
  \<^verbatim>\<open>a + b\<close> on \<^verbatim>\<open>u16\<close>: with overflow checks (a debug build) an overflow panics, without them
  (a release build) it wraps.
\<close>

definition add_u16 :: "bool \<Rightarrow> u16 \<Rightarrow> u16 \<Rightarrow> u16 outcome" where
  [rust_std]: "add_u16 overflow_checks a b =
     (if overflow_checks \<and> 2 ^ 16 \<le> unat a + unat b then Panicked else Returned (a + b))"

section \<open>Errors\<close>

text \<open>One constructor per message the crates \<^verbatim>\<open>btstack-core\<close> and \<^verbatim>\<open>btstack-gatt\<close> report.\<close>

datatype error =
    Name_Length             \<comment> \<open>Advertising name must contain 1..=26 UTF-8 bytes\<close>
  | No_Services             \<comment> \<open>At least one GATT service is required\<close>
  | Empty_Service           \<comment> \<open>Service requires a characteristic\<close>
  | Duplicate_Uuid          \<comment> \<open>Characteristic UUIDs must be unique\<close>
  | Missing_Handler         \<comment> \<open>Characteristic properties require corresponding handlers\<close>
  | Too_Many                \<comment> \<open>at most 16 services and 64 characteristics\<close>
  | Empty_Local_Name        \<comment> \<open>Advertising local name must not be empty\<close>
  | Advertising_Too_Large   \<comment> \<open>Advertising data too large\<close>
  | Advertising_Exceeds_31  \<comment> \<open>Legacy advertising data exceeds 31 bytes\<close>
  | Invalid_Header          \<comment> \<open>Invalid HCI packet header\<close>
  | Invalid_Length          \<comment> \<open>Invalid HCI packet length\<close>
  | Inactive_Connection     \<comment> \<open>Connection is no longer active\<close>
  | Unknown_Characteristic  \<comment> \<open>Unknown characteristic\<close>
  | Not_Subscribed          \<comment> \<open>Peer has not subscribed\<close>
  | Exceeds_Mtu             \<comment> \<open>Notification exceeds negotiated ATT MTU\<close>
  | Notification_Queue_Full \<comment> \<open>Notification queue full\<close>
  | Advertising_Failed u16  \<comment> \<open>LE advertising failed: HCI status\<close>
  | Command_Failed u16 u16  \<comment> \<open>HCI command failed\<close>
  | Init_Timed_Out          \<comment> \<open>Timed out initializing controller / advertising\<close>
  | Shutdown_Timed_Out      \<comment> \<open>Controller shutdown timed out\<close>
  | Power_On_Failed         \<comment> \<open>HCI power-on failed\<close>
  | Runtime_Panicked        \<comment> \<open>BTstack runtime callback panicked\<close>
  | Shutdown_Panicked       \<comment> \<open>Transport panicked during shutdown\<close>
  | Transport_Panicked      \<comment> \<open>Transport callback panicked\<close>
  | Transport_Error string  \<comment> \<open>an error of the transport, by its message\<close>
  | Already_Active          \<comment> \<open>Only one BTstack runtime may be active per process\<close>
  | Spawn_Failed            \<comment> \<open>the thread could not be created\<close>
  | Startup_Timed_Out       \<comment> \<open>Controller advertising startup timed out\<close>
  | Called_From_Callback    \<comment> \<open>Do not call blocking server methods from a GATT callback\<close>
  | Value_Exceeds_512       \<comment> \<open>ATT value exceeds 512 bytes\<close>
  | Queue_Full_Or_Stopped   \<comment> \<open>Runtime stopped or command queue full\<close>
  | Enqueue_Timed_Out       \<comment> \<open>Notification enqueue timed out\<close>
  | Join_From_Callback      \<comment> \<open>Cannot join the BTstack thread from its own callback\<close>
  | Thread_Panicked         \<comment> \<open>BTstack thread panicked\<close>

text \<open>The operator \<^verbatim>\<open>?\<close>: an error returns early.\<close>

definition and_then :: "'e + 'a \<Rightarrow> ('a \<Rightarrow> 'e + 'b) \<Rightarrow> 'e + 'b" where
  [rust_std]: "and_then r f = (case r of Inl e \<Rightarrow> Inl e | Inr v \<Rightarrow> f v)"

lemma and_then_simps [simp]:
  "and_then (Inl e) f = Inl e"
  "and_then (Inr v) f = f v"
  by (simp_all add: and_then_def)

lemma and_then_Inr: "and_then r f = Inr y \<longleftrightarrow> (\<exists>x. r = Inr x \<and> f x = Inr y)"
  by (cases r) auto

lemma and_then_Inl: "and_then r f = Inl e \<longleftrightarrow> r = Inl e \<or> (\<exists>x. r = Inr x \<and> f x = Inl e)"
  by (cases r) auto

text \<open>\<^verbatim>\<open>Option::ok_or\<close>.\<close>

definition ok_or :: "'e \<Rightarrow> 'a option \<Rightarrow> 'e + 'a" where
  [rust_std]: "ok_or e x = (case x of None \<Rightarrow> Inl e | Some v \<Rightarrow> Inr v)"

lemma ok_or_simps [simp]:
  "ok_or e None = Inl e"
  "ok_or e (Some v) = Inr v"
  by (simp_all add: ok_or_def)

lemma ok_or_Inr: "ok_or e x = Inr v \<longleftrightarrow> x = Some v"
  by (cases x) auto

section \<open>Search and removal in a queue\<close>

text \<open>\<^verbatim>\<open>Iterator::position\<close> and \<^verbatim>\<open>VecDeque::remove\<close>.\<close>

fun position :: "('a \<Rightarrow> bool) \<Rightarrow> 'a list \<Rightarrow> nat option" where
  "position P [] = None"
| "position P (x # xs) = (if P x then Some 0 else map_option Suc (position P xs))"

definition remove_at :: "nat \<Rightarrow> 'a list \<Rightarrow> ('a \<times> 'a list) option" where
  [rust_std]: "remove_at i xs =
     (if i < length xs then Some (xs ! i, take i xs @ drop (Suc i) xs) else None)"

definition remove_first :: "('a \<Rightarrow> bool) \<Rightarrow> 'a list \<Rightarrow> ('a \<times> 'a list) option" where
  "remove_first P xs = Option.bind (position P xs) (\<lambda>i. remove_at i xs)"

lemma remove_first_Nil [simp]: "remove_first P [] = None"
  by (simp add: remove_first_def)

lemma remove_first_Cons [simp]:
  "remove_first P (x # xs) =
     (if P x then Some (x, xs) else map_option (\<lambda>(y, ys). (y, x # ys)) (remove_first P xs))"
  by (cases "position P xs") (auto simp: remove_first_def remove_at_def)

lemma remove_first_None_iff: "remove_first P xs = None \<longleftrightarrow> (\<forall>x \<in> set xs. \<not> P x)"
  by (induction xs) auto

lemma remove_first_SomeD:
  "remove_first P xs = Some (x, ys) \<Longrightarrow>
     P x \<and> (\<exists>us vs. xs = us @ x # vs \<and> ys = us @ vs \<and> (\<forall>u \<in> set us. \<not> P u))"
proof (induction xs arbitrary: ys)
  case Nil
  then show ?case by simp
next
  case (Cons a xs)
  show ?case
  proof (cases "P a")
    case True
    with Cons.prems show ?thesis by force
  next
    case False
    with Cons.prems obtain zs where zs: "remove_first P xs = Some (x, zs)" "ys = a # zs"
      by auto
    from Cons.IH [OF zs(1)] obtain us vs where
      "P x" "xs = us @ x # vs" "zs = us @ vs" "\<forall>u \<in> set us. \<not> P u" by blast
    with zs(2) False have "P x \<and> a # xs = (a # us) @ x # vs \<and> ys = (a # us) @ vs
        \<and> (\<forall>u \<in> set (a # us). \<not> P u)"
      by auto
    then show ?thesis by blast
  qed
qed

lemma remove_first_length:
  "remove_first P xs = Some (x, ys) \<Longrightarrow> length xs = Suc (length ys)"
  by (auto dest: remove_first_SomeD)

lemma remove_first_subset:
  "remove_first P xs = Some (x, ys) \<Longrightarrow> set xs = insert x (set ys)"
  by (auto dest!: remove_first_SomeD)

text \<open>Removing the first match by one key leaves the order of every other key's entries.\<close>

lemma remove_first_filter_other:
  assumes "remove_first P xs = Some (x, ys)" and "\<And>z. Q z \<Longrightarrow> \<not> P z"
  shows "filter Q ys = filter Q xs"
  using remove_first_SomeD [OF assms(1)] assms(2) by auto

lemma remove_first_filter_same:
  assumes "remove_first P xs = Some (x, ys)"
  shows "filter P xs = x # filter P ys"
  using remove_first_SomeD [OF assms] by auto

section \<open>Maps\<close>

text \<open>\<^verbatim>\<open>HashMap::retain\<close> on the keys, and a flag looked up with \<^verbatim>\<open>unwrap_or(false)\<close>.\<close>

definition retain_keys :: "('k \<Rightarrow> bool) \<Rightarrow> ('k \<rightharpoonup> 'v) \<Rightarrow> ('k \<rightharpoonup> 'v)" where
  "retain_keys P m = (\<lambda>k. if P k then m k else None)"

lemma retain_keys_apply [simp]: "retain_keys P m k = (if P k then m k else None)"
  by (simp add: retain_keys_def)

lemma dom_retain_keys: "dom (retain_keys P m) = {k \<in> dom m. P k}"
  by (auto simp: retain_keys_def split: if_splits)

definition flag :: "('k \<rightharpoonup> bool) \<Rightarrow> 'k \<Rightarrow> bool" where
  [rust_std]: "flag m k = (case m k of Some b \<Rightarrow> b | None \<Rightarrow> False)"

lemma flag_upd [simp]: "flag (m(k \<mapsto> b)) k' = (if k' = k then b else flag m k')"
  by (simp add: flag_def)

lemma flag_retain [simp]: "flag (retain_keys P m) k = (P k \<and> flag m k)"
  by (simp add: flag_def)

section \<open>Bounds on words\<close>

lemma unat_u16_bound: "unat (x :: u16) < 65536"
  using unsigned_less [of x] by simp

lemma unat_u8_bound: "unat (x :: u8) < 256"
  using unsigned_less [of x] by simp

lemma unat_of_nat_u8: "n < 256 \<Longrightarrow> unat (word_of_nat n :: u8) = n"
  by (simp add: unsigned_of_nat take_bit_nat_eq_self)

lemma unat_of_nat_u16: "n < 65536 \<Longrightarrow> unat (word_of_nat n :: u16) = n"
  by (simp add: unsigned_of_nat take_bit_nat_eq_self)

lemma u16_not_max:
  assumes "(x :: u16) \<noteq> 0xffff"
  shows "unat x + 1 < 2 ^ 16"
proof -
  have "unat x \<noteq> unat (0xffff :: u16)"
    using assms by (simp only: word_unat_eq_iff [symmetric] simp_thms)
  then show ?thesis using unat_u16_bound [of x] by simp
qed

lemma u8_le_1:
  assumes "(b :: u8) \<le> 1"
  shows "b = 0 \<or> b = 1"
proof -
  have "unat b = unat (0 :: u8) \<or> unat b = unat (1 :: u8)"
    using assms by (simp add: word_le_nat_alt) arith
  then show ?thesis by (metis word_unat_eq_iff)
qed

end
