(* ===== verification/Uuid.thy ===== *)
theory Uuid
  imports Prelude
begin

text \<open>
  \<^verbatim>\<open>pub type Uuid = [u8; 16]\<close> (btstack-core/src/gatt.rs): an array of exactly sixteen bytes,
  canonical big-endian. The sixteen fields make the length part of the type, as the array type
  does; \<open>uuid_bytes\<close> reads the array and \<open>uuid_of_bytes\<close> is its partial inverse.
\<close>

datatype uuid = Uuid u8 u8 u8 u8 u8 u8 u8 u8 u8 u8 u8 u8 u8 u8 u8 u8

fun uuid_bytes :: "uuid \<Rightarrow> bytes" where
  "uuid_bytes (Uuid a b c d e f g h i j k l m n p q) = [a, b, c, d, e, f, g, h, i, j, k, l, m, n, p, q]"

fun uuid_of_bytes :: "bytes \<Rightarrow> uuid option" where
  "uuid_of_bytes [a, b, c, d, e, f, g, h, i, j, k, l, m, n, p, q] =
     Some (Uuid a b c d e f g h i j k l m n p q)"
| "uuid_of_bytes _ = None"

text \<open>The array literal \<^verbatim>\<open>[b; 16]\<close>.\<close>

definition uuid_repeat :: "u8 \<Rightarrow> uuid" where
  "uuid_repeat b = Uuid b b b b b b b b b b b b b b b b"

lemma length_uuid_bytes [simp]: "length (uuid_bytes u) = 16"
  by (cases u) simp

lemma uuid_of_bytes_uuid_bytes [simp]: "uuid_of_bytes (uuid_bytes u) = Some u"
  by (cases u) simp

lemma uuid_bytes_inject [simp]: "uuid_bytes u = uuid_bytes v \<longleftrightarrow> u = v"
  by (metis option.inject uuid_of_bytes_uuid_bytes)

lemma uuid_repeat_inject [simp]: "uuid_repeat a = uuid_repeat b \<longleftrightarrow> a = b"
  by (simp add: uuid_repeat_def)

end
