(* ===== verification/Advertising.thy ===== *)
theory Advertising
  imports Uuid
begin

text \<open>
  btstack-core/src/advertising.rs: the builder \<^verbatim>\<open>AdvertisingData\<close> and its encoder
  \<^verbatim>\<open>to_bytes\<close>. A Rust \<^verbatim>\<open>String\<close> is the list of its UTF-8 bytes (\<^verbatim>\<open>len()\<close> counts bytes). The
  reference is the AD-structure format of Bluetooth: a list of length, type, data records, read
  by \<open>ad_structures\<close> and interpreted by \<open>ad_decode\<close>, which are specifications and not code of
  the repository.
\<close>

section \<open>The builder\<close>

record advertising_data =
  ad_name :: "bytes option"
  ad_services :: "uuid list"

definition advertising_new :: advertising_data where
  "advertising_new = \<lparr>ad_name = None, ad_services = []\<rparr>"

definition local_name :: "bytes \<Rightarrow> advertising_data \<Rightarrow> advertising_data" where
  "local_name name d = d\<lparr>ad_name := Some name\<rparr>"

definition service_uuid :: "uuid \<Rightarrow> advertising_data \<Rightarrow> advertising_data" where
  "service_uuid u d =
     (if u \<notin> set (ad_services d) then d\<lparr>ad_services := ad_services d @ [u]\<rparr> else d)"

section \<open>The encoder\<close>

definition name_len :: "advertising_data \<Rightarrow> error + nat" where
  "name_len d =
     (case ad_name d of
        Some name \<Rightarrow>
          (if name = [] then Inl Empty_Local_Name
           else case checked_add (length name) 2 of
                  None \<Rightarrow> Inl Advertising_Too_Large
                | Some n \<Rightarrow> Inr n)
      | None \<Rightarrow> Inr 0)"

definition services_len :: "advertising_data \<Rightarrow> error + nat" where
  "services_len d =
     (if ad_services d = [] then Inr 0
      else case Option.bind (checked_mul (length (ad_services d)) 16) (\<lambda>n. checked_add n 2) of
             None \<Rightarrow> Inl Advertising_Too_Large
           | Some n \<Rightarrow> Inr n)"

definition total_len :: "nat \<Rightarrow> nat \<Rightarrow> error + nat" where
  "total_len nl sl =
     (case Option.bind (checked_add 3 nl) (\<lambda>n. checked_add n sl) of
        None \<Rightarrow> Inl Advertising_Too_Large
      | Some n \<Rightarrow> Inr n)"

definition encode_data :: "nat \<Rightarrow> advertising_data \<Rightarrow> bytes" where
  "encode_data sl d =
     [2, 1, 6]
     @ (if ad_services d \<noteq> []
        then [word_of_nat (sl - 1), 0x07] @ concat (map (\<lambda>u. rev (uuid_bytes u)) (ad_services d))
        else [])
     @ (case ad_name d of
          Some name \<Rightarrow> [word_of_nat (length name + 1), 0x09] @ name
        | None \<Rightarrow> [])"

definition to_bytes :: "advertising_data \<Rightarrow> error + bytes" where
  "to_bytes d =
     (case name_len d of
        Inl e \<Rightarrow> Inl e
      | Inr nl \<Rightarrow>
          (case services_len d of
             Inl e \<Rightarrow> Inl e
           | Inr sl \<Rightarrow>
               (case total_len nl sl of
                  Inl e \<Rightarrow> Inl e
                | Inr len \<Rightarrow>
                    if 31 < len then Inl Advertising_Exceeds_31
                    else Inr (encode_data sl d))))"

section \<open>Reference: the AD structures of a payload\<close>

function ad_structures :: "bytes \<Rightarrow> (u8 \<times> bytes) list option" where
  "ad_structures bs =
     (case bs of
        [] \<Rightarrow> Some []
      | l # rest \<Rightarrow>
          (case rest of
             [] \<Rightarrow> None
           | t # ds \<Rightarrow>
               if l = 0 \<or> length rest < unat l then None
               else map_option (Cons (t, take (unat l - 1) ds))
                      (ad_structures (drop (unat l - 1) ds))))"
  by pat_completeness auto
termination
  by (relation "measure length") auto

declare ad_structures.simps [simp del]

fun ad_chunks :: "nat \<Rightarrow> bytes \<Rightarrow> uuid list option" where
  "ad_chunks 0 bs = (if bs = [] then Some [] else None)"
| "ad_chunks (Suc n) bs =
     (case uuid_of_bytes (rev (take 16 bs)) of
        None \<Rightarrow> None
      | Some u \<Rightarrow> map_option (Cons u) (ad_chunks n (drop 16 bs)))"

fun ad_interpret :: "(u8 \<times> bytes) list \<Rightarrow> advertising_data option" where
  "ad_interpret [] = Some advertising_new"
| "ad_interpret ((t, ds) # rest) =
     (case ad_interpret rest of
        None \<Rightarrow> None
      | Some d \<Rightarrow>
          if t = 1 then (if ds = [6] then Some d else None)
          else if t = 9 then Some (d\<lparr>ad_name := Some ds\<rparr>)
          else if t = 7
          then map_option (\<lambda>us. d\<lparr>ad_services := us\<rparr>) (ad_chunks (length ds div 16) ds)
          else None)"

definition ad_decode :: "bytes \<Rightarrow> advertising_data option" where
  "ad_decode bs = Option.bind (ad_structures bs) ad_interpret"

section \<open>The length of a payload\<close>

text \<open>The bytes an advertisement needs: flags, then per part two header bytes and its data.\<close>

definition payload_length :: "advertising_data \<Rightarrow> nat" where
  "payload_length d =
     3 + (if ad_services d = [] then 0 else 16 * length (ad_services d) + 2)
       + (case ad_name d of None \<Rightarrow> 0 | Some n \<Rightarrow> length n + 2)"

text \<open>The bytes the encoder writes when no length check fails.\<close>

definition encoding :: "advertising_data \<Rightarrow> bytes" where
  "encoding d = encode_data (16 * length (ad_services d) + 2) d"

lemma length_encode_data: "length (encode_data sl d) = payload_length d"
proof -
  have "length (concat (map (\<lambda>u. rev (uuid_bytes u)) us)) = 16 * length us" for us
    by (induction us) auto
  then show ?thesis
    by (simp add: encode_data_def payload_length_def split: option.split)
qed

text \<open>
  The checked additions decide exactly whether the whole length fits a \<^verbatim>\<open>usize\<close>: no step
  overflows unless the total does, so the encoder is the three-way test below.
\<close>

lemma to_bytes_eq:
  "to_bytes d =
     (if ad_name d = Some [] then Inl Empty_Local_Name
      else if usize_max < payload_length d then Inl Advertising_Too_Large
      else if 31 < payload_length d then Inl Advertising_Exceeds_31
      else Inr (encoding d))"
  by (auto simp: to_bytes_def name_len_def services_len_def total_len_def
      payload_length_def rust_std encoding_def encode_data_def split: option.splits)

lemma to_bytes_Inr_iff:
  "to_bytes d = Inr bs \<longleftrightarrow>
     ad_name d \<noteq> Some [] \<and> payload_length d \<le> 31 \<and>
     bs = encoding d"
  by (auto simp: to_bytes_eq usize_max_def)

text \<open>Within 31 bytes there is room for one UUID at most.\<close>

lemma short_payload_services:
  "payload_length d \<le> 31 \<Longrightarrow> ad_services d = [] \<or> (\<exists>u. ad_services d = [u])"
  by (cases "ad_services d"; cases "tl (ad_services d)") (auto simp: payload_length_def)

section \<open>The encoder writes AD structures\<close>

lemma ad_structures_Nil [simp]: "ad_structures [] = Some []"
  by (simp add: ad_structures.simps)

lemma ad_structures_append:
  assumes "length ds < 255"
  shows "ad_structures (word_of_nat (Suc (length ds)) # t # ds @ rest) =
     map_option (Cons (t, ds)) (ad_structures rest)"
proof -
  have "unat (word_of_nat (Suc (length ds)) :: u8) = Suc (length ds)"
    using assms by (intro unat_of_nat_u8) simp
  moreover from this have "(word_of_nat (Suc (length ds)) :: u8) \<noteq> 0" by (metis nat.simps(3) unat_0)
  ultimately show ?thesis by (subst ad_structures.simps) simp
qed

definition name_structures :: "advertising_data \<Rightarrow> (u8 \<times> bytes) list" where
  "name_structures d = (case ad_name d of None \<Rightarrow> [] | Some n \<Rightarrow> [(9, n)])"

lemma ad_structures_flags: "ad_structures (2 # 1 # 6 # rest) = map_option (Cons (1, [6])) (ad_structures rest)"
  using ad_structures_append [of "[6]" 1 rest] by simp

lemma ad_structures_name:
  assumes "length n < 255"
  shows "ad_structures ((1 + word_of_nat (length n)) # 9 # n) = Some [(9, n)]"
  using ad_structures_append [OF assms, of 9 "[]"] by simp

lemma ad_structures_uuid:
  "ad_structures (17 # 7 # rev (uuid_bytes u) @ rest) =
     map_option (Cons (7, rev (uuid_bytes u))) (ad_structures rest)"
  using ad_structures_append [of "rev (uuid_bytes u)" 7 rest] by simp

lemma ad_structures_encode:
  assumes "payload_length d \<le> 31"
  shows "ad_structures (encoding d) =
     Some ((1, [6]) # map (\<lambda>u. (7, rev (uuid_bytes u))) (ad_services d) @ name_structures d)"
proof -
  have name: "length n < 255" if "ad_name d = Some n" for n
    using assms that by (simp add: payload_length_def)
  from short_payload_services [OF assms] consider
    "ad_services d = []" | u where "ad_services d = [u]" by blast
  then show ?thesis
    by cases
      (auto simp: encoding_def encode_data_def name_structures_def ad_structures_flags ad_structures_uuid
        ad_structures_name [OF name] split: option.split)
qed

lemma ad_decode_encode:
  assumes "payload_length d \<le> 31"
  shows "ad_decode (encoding d) = Some d"
proof -
  have chunk: "ad_chunks (Suc 0) (rev (uuid_bytes u)) = Some [u]" for u
    by simp
  have named: "ad_interpret (name_structures d) = Some \<lparr>ad_name = ad_name d, ad_services = []\<rparr>"
    by (simp add: name_structures_def advertising_new_def split: option.split)
  from short_payload_services [OF assms] consider
    "ad_services d = []" | u where "ad_services d = [u]" by blast
  then show ?thesis
    by cases
      (simp_all add: ad_decode_def ad_structures_encode [OF assms] named chunk
        del: ad_chunks.simps)
qed

section \<open>Properties\<close>

text \<open>
  The encoder either refuses or returns exactly \<open>payload_length\<close> bytes, which never exceed the
  31 bytes of a legacy advertisement: nothing is truncated and nothing overflows.
\<close>

theorem to_bytes_length:
  assumes "to_bytes d = Inr bs"
  shows "length bs = payload_length d \<and> length bs \<le> 31"
  using assms by (simp add: to_bytes_Inr_iff encoding_def length_encode_data)

theorem to_bytes_length_witness:
  "length [2, 1, 6, 4, 9, 97, 98, 99 :: u8]
     = payload_length (local_name [97, 98, 99] advertising_new)
   \<and> length [2, 1, 6, 4, 9, 97, 98, 99 :: u8] \<le> 31"
  by (rule to_bytes_length) (simp add: to_bytes_Inr_iff local_name_def advertising_new_def
      payload_length_def encoding_def encode_data_def)

text \<open>
  Every outcome of the encoder: an empty name first, then a length beyond \<^verbatim>\<open>usize\<close> (one of the
  checked operations fails exactly when the total does not fit), then a length beyond 31 bytes, and
  otherwise the bytes.
\<close>

theorem to_bytes_outcome:
  "to_bytes d =
     (if ad_name d = Some [] then Inl Empty_Local_Name
      else if usize_max < payload_length d then Inl Advertising_Too_Large
      else if 31 < payload_length d then Inl Advertising_Exceeds_31
      else Inr (encoding d))"
  by (rule to_bytes_eq)

text \<open>
  C35. Decoding the payload as Bluetooth AD structures gives the advertising data back: flags 6, the
  UUIDs in the order they were added with their byte order reversed on the air, and the name.
\<close>

theorem to_bytes_roundtrip:
  assumes "to_bytes d = Inr bs"
  shows "ad_decode bs = Some d"
  using assms by (simp add: to_bytes_Inr_iff ad_decode_encode)

theorem to_bytes_roundtrip_witness:
  "ad_decode [2, 1, 6, 17, 7, 1, 1, 1, 1, 1, 1, 1, 1, 1, 1, 1, 1, 1, 1, 1, 1, 3, 9, 97, 98]
     = Some (local_name [97, 98] (service_uuid (uuid_repeat 1) advertising_new))"
  by (rule to_bytes_roundtrip)
    (simp add: to_bytes_Inr_iff local_name_def service_uuid_def advertising_new_def
      payload_length_def encoding_def encode_data_def uuid_repeat_def)

text \<open>
  Adding service UUIDs in any number and order keeps the list free of duplicates, keeps each
  UUID where it was first added, and does not touch the name.
\<close>

theorem service_uuids_distinct:
  "distinct (ad_services (fold service_uuid us advertising_new))
   \<and> set (ad_services (fold service_uuid us advertising_new)) = set us
   \<and> ad_services (fold service_uuid us advertising_new) = rev (remdups (rev us))
   \<and> ad_name (fold service_uuid us advertising_new) = None"
proof (induction us rule: rev_induct)
  case Nil
  then show ?case by (simp add: advertising_new_def)
next
  case (snoc u us)
  then show ?case by (auto simp: service_uuid_def)
qed

end
