(* ===== verification/Gatt.thy ===== *)
theory Gatt
  imports Advertising
begin

text \<open>
  btstack-core/src/gatt.rs: connections, statuses, characteristics with their handlers, services,
  the events the server reports, and \<^verbatim>\<open>validate\<close>, which every service table passes before the
  stack is touched. A handler is a Rust closure: it may change the application's own state (the
  type \<open>'w\<close>), return a status or a value, or panic.
\<close>

section \<open>Connections, statuses, events\<close>

record gatt_connection =
  conn_handle :: u16
  generation :: u64
  mtu :: u16

definition connection_id :: "gatt_connection \<Rightarrow> u64" where
  "connection_id c = generation c"

definition connection_mtu :: "gatt_connection \<Rightarrow> u16" where
  "connection_mtu c = mtu c"

datatype subscription_type = Subscription_None | Subscription_Notify

datatype gatt_status =
    ReadNotPermitted | WriteNotPermitted | InvalidOffset | RequestNotSupported
  | InvalidValueLength | UnlikelyError | ValueNotAllowed

fun status_code :: "gatt_status \<Rightarrow> nat" where
  "status_code ReadNotPermitted = 2"
| "status_code WriteNotPermitted = 3"
| "status_code InvalidOffset = 7"
| "status_code RequestNotSupported = 6"
| "status_code InvalidValueLength = 13"
| "status_code UnlikelyError = 14"
| "status_code ValueNotAllowed = 19"

text \<open>\<^verbatim>\<open>e as u16\<close> and \<^verbatim>\<open>e as i32\<close>.\<close>

definition status_u16 :: "gatt_status \<Rightarrow> u16" where
  "status_u16 e = word_of_nat (status_code e)"

definition status_i32 :: "gatt_status \<Rightarrow> i32" where
  "status_i32 e = word_of_nat (status_code e)"

lemma status_code_bounds: "2 \<le> status_code e \<and> status_code e \<le> 19"
  by (cases e) simp_all

lemma status_i32_nonzero [simp]: "status_i32 e \<noteq> 0"
  by (cases e) (simp_all add: status_i32_def)

lemma status_i32_inject [simp]: "status_i32 e = status_i32 f \<longleftrightarrow> e = f"
  by (cases e; cases f) (simp_all add: status_i32_def)

datatype server_event =
    Connected gatt_connection
  | Disconnected gatt_connection
  | SubscriptionChanged gatt_connection uuid subscription_type
  | NotificationFailed gatt_connection u8
  | Server_Error error

text \<open>The statuses are ordered by their wire codes.\<close>

instantiation gatt_status :: linorder
begin

definition less_eq_gatt_status :: "gatt_status \<Rightarrow> gatt_status \<Rightarrow> bool" where
  "less_eq_gatt_status e f \<longleftrightarrow> status_code e \<le> status_code f"

definition less_gatt_status :: "gatt_status \<Rightarrow> gatt_status \<Rightarrow> bool" where
  "less_gatt_status e f \<longleftrightarrow> status_code e < status_code f"

instance
proof
  fix e f :: gatt_status
  show "e = f" if "e \<le> f" and "f \<le> e"
    using that by (cases e; cases f) (simp_all add: less_eq_gatt_status_def)
qed (auto simp: less_eq_gatt_status_def less_gatt_status_def)

end

section \<open>Characteristics and services\<close>

record gatt_read_request =
  rd_connection :: gatt_connection

record gatt_write_request =
  wr_connection :: gatt_connection
  wr_value :: bytes

type_synonym 'w read_handler =
  "'w \<Rightarrow> gatt_read_request \<Rightarrow> 'w \<times> (gatt_status + bytes) outcome"
type_synonym 'w write_handler =
  "'w \<Rightarrow> gatt_write_request \<Rightarrow> 'w \<times> (gatt_status + unit) outcome"

record 'w gatt_characteristic =
  ch_uuid :: uuid
  properties :: u16
  read_fn :: "'w read_handler option"
  write_fn :: "'w write_handler option"

definition characteristic_new :: "uuid \<Rightarrow> 'w gatt_characteristic" where
  "characteristic_new u = \<lparr>ch_uuid = u, properties = 0, read_fn = None, write_fn = None\<rparr>"

definition with_read :: "'w gatt_characteristic \<Rightarrow> 'w gatt_characteristic" where
  "with_read c = c\<lparr>properties := properties c OR 2\<rparr>"

definition with_write :: "'w gatt_characteristic \<Rightarrow> 'w gatt_characteristic" where
  "with_write c = c\<lparr>properties := properties c OR 8\<rparr>"

definition with_write_without_response :: "'w gatt_characteristic \<Rightarrow> 'w gatt_characteristic" where
  "with_write_without_response c = c\<lparr>properties := properties c OR 4\<rparr>"

definition with_notify :: "'w gatt_characteristic \<Rightarrow> 'w gatt_characteristic" where
  "with_notify c = c\<lparr>properties := properties c OR 16\<rparr>"

definition on_read :: "'w read_handler \<Rightarrow> 'w gatt_characteristic \<Rightarrow> 'w gatt_characteristic" where
  "on_read f c = c\<lparr>read_fn := Some f\<rparr>"

definition on_write :: "'w write_handler \<Rightarrow> 'w gatt_characteristic \<Rightarrow> 'w gatt_characteristic" where
  "on_write f c = c\<lparr>write_fn := Some f\<rparr>"

record 'w gatt_service =
  sv_uuid :: uuid
  characteristics :: "'w gatt_characteristic list"

definition service_new :: "uuid \<Rightarrow> 'w gatt_service" where
  "service_new u = \<lparr>sv_uuid = u, characteristics = []\<rparr>"

definition add_characteristic :: "'w gatt_characteristic \<Rightarrow> 'w gatt_service \<Rightarrow> 'w gatt_service" where
  "add_characteristic c s = s\<lparr>characteristics := characteristics s @ [c]\<rparr>"

text \<open>The property bits the code tests.\<close>

definition notifies :: "'w gatt_characteristic \<Rightarrow> bool" where
  "notifies c \<longleftrightarrow> properties c AND 16 \<noteq> 0"

section \<open>Validation\<close>

text \<open>
  The loops of \<^verbatim>\<open>validate\<close> carry the set of characteristic UUIDs seen and the number of
  characteristics; an early return is an \<open>Inl\<close>.
\<close>

definition handlers_missing :: "'w gatt_characteristic \<Rightarrow> bool" where
  "handlers_missing c \<longleftrightarrow>
     properties c = 0
     \<or> (properties c AND 2 \<noteq> 0 \<and> read_fn c = None)
     \<or> (properties c AND 12 \<noteq> 0 \<and> write_fn c = None)"

fun validate_characteristics ::
  "'w gatt_characteristic list \<Rightarrow> uuid set \<Rightarrow> nat \<Rightarrow> error + (uuid set \<times> nat)" where
  "validate_characteristics [] uuids count = Inr (uuids, count)"
| "validate_characteristics (c # cs) uuids count =
     (if ch_uuid c \<in> uuids then Inl Duplicate_Uuid
      else if handlers_missing c then Inl Missing_Handler
      else validate_characteristics cs (insert (ch_uuid c) uuids) (count + 1))"

fun validate_services ::
  "'w gatt_service list \<Rightarrow> uuid set \<Rightarrow> nat \<Rightarrow> error + (uuid set \<times> nat)" where
  "validate_services [] uuids count = Inr (uuids, count)"
| "validate_services (s # ss) uuids count =
     (if characteristics s = [] then Inl Empty_Service
      else case validate_characteristics (characteristics s) uuids count of
             Inl e \<Rightarrow> Inl e
           | Inr (uuids', count') \<Rightarrow> validate_services ss uuids' count')"

definition validate :: "bytes \<Rightarrow> 'w gatt_service list \<Rightarrow> error + bytes" where
  "validate name services =
     (if name = [] \<or> 26 < length name then Inl Name_Length
      else if services = [] then Inl No_Services
      else case validate_services services {} 0 of
             Inl e \<Rightarrow> Inl e
           | Inr (uuids, count) \<Rightarrow>
               if 64 < count \<or> 16 < length services then Inl Too_Many
               else to_bytes (local_name name advertising_new))"

section \<open>What validation accepts\<close>

definition all_characteristics :: "'w gatt_service list \<Rightarrow> 'w gatt_characteristic list" where
  "all_characteristics ss = concat (map characteristics ss)"

text \<open>The specification: what a service table must satisfy, said without the loops.\<close>

definition valid_services :: "'w gatt_service list \<Rightarrow> bool" where
  "valid_services ss \<longleftrightarrow>
     ss \<noteq> [] \<and> length ss \<le> 16 \<and> length (all_characteristics ss) \<le> 64
     \<and> (\<forall>s \<in> set ss. characteristics s \<noteq> [])
     \<and> distinct (map ch_uuid (all_characteristics ss))
     \<and> (\<forall>c \<in> set (all_characteristics ss). \<not> handlers_missing c)"

lemma validate_characteristics_Inr_iff:
  "validate_characteristics cs uuids n = Inr (uuids', n') \<longleftrightarrow>
     distinct (map ch_uuid cs) \<and> uuids \<inter> ch_uuid ` set cs = {}
     \<and> (\<forall>c \<in> set cs. \<not> handlers_missing c)
     \<and> uuids' = uuids \<union> ch_uuid ` set cs \<and> n' = n + length cs"
  by (induction cs uuids n rule: validate_characteristics.induct) auto

lemma validate_characteristics_append:
  "validate_characteristics (xs @ ys) uuids n =
     (case validate_characteristics xs uuids n of
        Inl e \<Rightarrow> Inl e
      | Inr (uuids', n') \<Rightarrow> validate_characteristics ys uuids' n')"
  by (induction xs uuids n rule: validate_characteristics.induct) auto

text \<open>The nested loops are one loop over all characteristics, but for the empty services.\<close>

lemma validate_services_flat:
  "\<forall>s \<in> set ss. characteristics s \<noteq> [] \<Longrightarrow>
     validate_services ss uuids n = validate_characteristics (all_characteristics ss) uuids n"
  by (induction ss uuids n rule: validate_services.induct)
    (auto simp: all_characteristics_def validate_characteristics_append split: sum.split)

lemma validate_services_empty:
  "\<exists>s \<in> set ss. characteristics s = [] \<Longrightarrow> \<exists>e. validate_services ss uuids n = Inl e"
  by (induction ss arbitrary: uuids n) (auto split: sum.split)

lemma validate_services_Inr_iff:
  "validate_services ss uuids n = Inr r \<longleftrightarrow>
     (\<forall>s \<in> set ss. characteristics s \<noteq> [])
     \<and> validate_characteristics (all_characteristics ss) uuids n = Inr r"
proof (cases "\<forall>s \<in> set ss. characteristics s \<noteq> []")
  case True
  then show ?thesis by (simp add: validate_services_flat)
next
  case False
  then show ?thesis using validate_services_empty [of ss uuids n] by auto
qed

lemma to_bytes_local_name:
  assumes "name \<noteq> []" and "length name \<le> 26"
  shows "to_bytes (local_name name advertising_new) =
     Inr ([2, 1, 6, word_of_nat (length name + 1), 9] @ name)"
  using assms
  by (simp add: to_bytes_Inr_iff local_name_def advertising_new_def payload_length_def
      encoding_def encode_data_def)

lemma validate_Inr_iff:
  "validate name ss = Inr bs \<longleftrightarrow>
     name \<noteq> [] \<and> length name \<le> 26 \<and> valid_services ss
     \<and> bs = [2, 1, 6, word_of_nat (length name + 1), 9] @ name"
proof (cases "name \<noteq> [] \<and> length name \<le> 26 \<and> valid_services ss")
  case True
  then have "validate_services ss {} 0 =
      Inr (ch_uuid ` set (all_characteristics ss), length (all_characteristics ss))"
    by (simp add: validate_services_Inr_iff validate_characteristics_Inr_iff valid_services_def)
  with True show ?thesis
    by (auto simp: validate_def valid_services_def to_bytes_local_name)
next
  case False
  then show ?thesis
    by (auto simp: validate_def valid_services_def validate_services_Inr_iff
        validate_characteristics_Inr_iff split: sum.splits if_splits)
qed

section \<open>The builder's property bits\<close>

lemma with_property_bits:
  "properties (with_read c) AND 2 = 2"
  "properties (with_write c) AND 12 \<noteq> 0"
  "properties (with_write_without_response c) AND 12 \<noteq> 0"
  "properties (with_notify c) AND 16 = 16"
  by (simp_all add: with_read_def with_write_def with_write_without_response_def with_notify_def
      bit.conj_disj_distrib2 or_eq_0_iff word_ao_absorbs)

text \<open>The test services of the repository's unit test.\<close>

definition test_read_handler :: "'w read_handler" where
  "test_read_handler w _ = (w, Returned (Inr []))"

definition test_service :: "'w gatt_service" where
  "test_service =
     add_characteristic (on_read test_read_handler (with_read (characteristic_new (uuid_repeat 1))))
       (service_new (uuid_repeat 0))"

lemma test_service_simps [simp]:
  "characteristics test_service =
     [\<lparr>ch_uuid = uuid_repeat 1, properties = 2, read_fn = Some test_read_handler, write_fn = None\<rparr>]"
  by (simp add: test_service_def add_characteristic_def service_new_def on_read_def with_read_def
      characteristic_new_def)

section \<open>Properties\<close>

text \<open>
  C40. Validation accepts exactly the tables the runtime supports: a name of 1 to 26 bytes, 1 to 16
  services, each with a characteristic, at most 64 characteristics in all, with pairwise distinct
  UUIDs, each with some property and with the handlers its properties need. It then returns flags
  and the complete local name, so the default advertisement always fits.
\<close>

theorem validate_accepts_iff:
  "validate name ss = Inr bs \<longleftrightarrow>
     name \<noteq> [] \<and> length name \<le> 26 \<and> valid_services ss
     \<and> bs = [2, 1, 6, word_of_nat (length name + 1), 9] @ name"
  by (rule validate_Inr_iff)

text \<open>
  The cases of the repository's unit test: a 26-byte name gives the full 31 bytes and 27 bytes are
  refused, a readable characteristic without a handler is refused, and so is a repeated UUID.
\<close>

theorem validate_unit_test:
  "map_sum id length (validate (replicate 26 97) [test_service :: unit gatt_service]) = Inr 31
   \<and> validate (replicate 27 97) [test_service :: unit gatt_service] = Inl Name_Length
   \<and> validate [116] [add_characteristic (with_read (characteristic_new (uuid_repeat 1)))
       (service_new (uuid_repeat 0) :: unit gatt_service)] = Inl Missing_Handler
   \<and> validate [116] [test_service :: unit gatt_service, test_service] = Inl Duplicate_Uuid"
  by (simp add: validate_def to_bytes_local_name handlers_missing_def add_characteristic_def
      service_new_def with_read_def characteristic_new_def)

end
