(* ===== verification/Channel.thy ===== *)
theory Channel
  imports Prelude
begin

text \<open>
  The queues of the program. \<^verbatim>\<open>std::sync::mpsc\<close>: \<^verbatim>\<open>channel()\<close> is unbounded and
  \<^verbatim>\<open>sync_channel(n)\<close> holds \<open>n\<close> messages; a send fails once the receiver is gone, a
  \<^verbatim>\<open>try_send\<close> also when the buffer is full; a receive reports disconnection only when the
  buffer is empty and no sender is left. \<^verbatim>\<open>VecDeque\<close> is a list. The locale \<open>fifo_queue\<close> states
  what the program relies on: accepted messages leave in the order they were accepted.
\<close>

section \<open>The interface: first in, first out\<close>

locale fifo_queue =
  fixes items :: "'q \<Rightarrow> 'a list"
    and accepts :: "'q \<Rightarrow> bool"
    and push :: "'a \<Rightarrow> 'q \<Rightarrow> 'q"
    and pop :: "'q \<Rightarrow> ('a \<times> 'q) option"
  assumes push_accepted: "accepts q \<Longrightarrow> items (push x q) = items q @ [x]"
    and push_refused: "\<not> accepts q \<Longrightarrow> push x q = q"
    and pop_empty: "items q = [] \<Longrightarrow> pop q = None"
    and pop_front: "items q = x # xs \<Longrightarrow> \<exists>q'. pop q = Some (x, q') \<and> items q' = xs"
begin

lemma items_push: "items (push x q) = (if accepts q then items q @ [x] else items q)"
  by (simp add: push_accepted push_refused)

lemma pop_None_iff: "pop q = None \<longleftrightarrow> items q = []"
proof (cases "items q")
  case Nil
  then show ?thesis by (simp add: pop_empty)
next
  case (Cons x xs)
  then show ?thesis using pop_front by fastforce
qed

lemma pop_Some_items: "pop q = Some (x, q') \<Longrightarrow> items q = x # items q'"
proof (cases "items q")
  case Nil
  then show "pop q = Some (x, q') \<Longrightarrow> items q = x # items q'" by (simp add: pop_empty)
next
  case (Cons y ys)
  then show "pop q = Some (x, q') \<Longrightarrow> items q = x # items q'" using pop_front by fastforce
qed

text \<open>A message overtakes nothing: with an empty queue ahead of it, it is the next one out.\<close>

lemma push_pop_empty:
  assumes "accepts q" and "items q = []"
  shows "\<exists>q'. pop (push x q) = Some (x, q') \<and> items q' = []"
  using pop_front [of "push x q" x "[]"] push_accepted [OF assms(1)] assms(2) by simp

lemma push_keeps_front:
  assumes "items q = y # ys" and "accepts q"
  shows "\<exists>q'. pop (push x q) = Some (y, q') \<and> items q' = ys @ [x]"
  using pop_front [of "push x q" y "ys @ [x]"] push_accepted [OF assms(2)] assms(1) by simp

end

section \<open>mpsc channels\<close>

record 'a channel =
  queued :: "'a list"
  capacity :: "nat option"
  senders :: nat
  receiver_alive :: bool

datatype send_error = Channel_Full | Receiver_Gone

datatype 'a received = Received 'a | Nothing_Yet | Senders_Gone

definition unbounded :: "'a channel" where
  "unbounded = \<lparr>queued = [], capacity = None, senders = 1, receiver_alive = True\<rparr>"

definition sync_channel :: "nat \<Rightarrow> 'a channel" where
  "sync_channel n = \<lparr>queued = [], capacity = Some n, senders = 1, receiver_alive = True\<rparr>"

definition has_room :: "'a channel \<Rightarrow> bool" where
  "has_room c = (case capacity c of None \<Rightarrow> True | Some n \<Rightarrow> length (queued c) < n)"

definition try_send :: "'a \<Rightarrow> 'a channel \<Rightarrow> (send_error + unit) \<times> 'a channel" where
  "try_send x c =
     (if \<not> receiver_alive c then (Inl Receiver_Gone, c)
      else if \<not> has_room c then (Inl Channel_Full, c)
      else (Inr (), c\<lparr>queued := queued c @ [x]\<rparr>))"

definition try_recv :: "'a channel \<Rightarrow> 'a received \<times> 'a channel" where
  "try_recv c =
     (case queued c of
        x # xs \<Rightarrow> (Received x, c\<lparr>queued := xs\<rparr>)
      | [] \<Rightarrow> (if senders c = 0 then Senders_Gone else Nothing_Yet, c))"

text \<open>\<^verbatim>\<open>let _ = tx.send(x)\<close>: the result of the send is dropped.\<close>

definition send_ignored :: "'a \<Rightarrow> 'a channel \<Rightarrow> 'a channel" where
  "send_ignored x c = snd (try_send x c)"

text \<open>A blocking \<^verbatim>\<open>send\<close> whose result is dropped; \<open>None\<close> while it waits for room.\<close>

definition send_blocking :: "'a \<Rightarrow> 'a channel \<Rightarrow> 'a channel option" where
  "send_blocking x c =
     (if receiver_alive c \<and> \<not> has_room c then None else Some (send_ignored x c))"

definition drop_sender :: "'a channel \<Rightarrow> 'a channel" where
  "drop_sender c = c\<lparr>senders := senders c - 1\<rparr>"

definition drop_receiver :: "'a channel \<Rightarrow> 'a channel" where
  "drop_receiver c = c\<lparr>queued := [], receiver_alive := False\<rparr>"

definition pop_channel :: "'a channel \<Rightarrow> ('a \<times> 'a channel) option" where
  "pop_channel c =
     (case try_recv c of (Received x, c') \<Rightarrow> Some (x, c') | (_, c') \<Rightarrow> None)"

interpretation mpsc: fifo_queue queued "\<lambda>c. receiver_alive c \<and> has_room c" send_ignored pop_channel
  by unfold_locales
    (auto simp: send_ignored_def try_send_def pop_channel_def try_recv_def)

lemma send_ignored_frame [simp, frame]:
  "capacity (send_ignored x c) = capacity c"
  "senders (send_ignored x c) = senders c"
  "receiver_alive (send_ignored x c) = receiver_alive c"
  by (simp_all add: send_ignored_def try_send_def)

definition within_capacity :: "'a channel \<Rightarrow> bool" where
  "within_capacity c = (case capacity c of None \<Rightarrow> True | Some n \<Rightarrow> length (queued c) \<le> n)"

lemma send_within_capacity [inv_intros]:
  "within_capacity c \<Longrightarrow> within_capacity (send_ignored x c)"
  by (auto simp: within_capacity_def send_ignored_def try_send_def has_room_def
      split: option.splits)

section \<open>VecDeque as a queue\<close>

fun pop_front :: "'a list \<Rightarrow> ('a \<times> 'a list) option" where
  "pop_front [] = None"
| "pop_front (x # xs) = Some (x, xs)"

definition push_back :: "'a \<Rightarrow> 'a list \<Rightarrow> 'a list" where
  "push_back x xs = xs @ [x]"

interpretation deque: fifo_queue "\<lambda>xs. xs" "\<lambda>_. True" push_back pop_front
  by unfold_locales (auto simp: push_back_def)

end
