(* ===== verification/Server_State.thy ===== *)
theory Server_State
  imports Gatt Channel
begin

text \<open>
  The server state of btstack-core/src/runtime.rs: the attribute table, the live connections, the
  CCCD flags, the read snapshots and the notification queue, with the transitions the run loop
  makes on them for a connection, a disconnection, an MTU exchange, a notify command and a flush.
  \<open>state_ok\<close> is the invariant of the state; the abstract specification is a table of sessions,
  one per live connection, and \<open>sessions\<close> the abstraction onto it.
\<close>

section \<open>The state\<close>

record 'w attribute =
  attr_handle :: u16
  attr_char :: "'w gatt_characteristic"

type_synonym notification = "gatt_connection \<times> u16 \<times> bytes"

record 'w state =
  attributes :: "'w attribute list"
  connections :: "u16 \<rightharpoonup> gatt_connection"
  subscriptions :: "u16 \<times> u16 \<rightharpoonup> bool"
  reads :: "u16 \<times> u16 \<rightharpoonup> bytes"
  pending :: "notification list"
  events :: "server_event channel"

definition initial_state :: "'w state" where
  "initial_state =
     \<lparr>attributes = [], connections = Map.empty, subscriptions = Map.empty, reads = Map.empty,
      pending = [], events = unbounded\<rparr>"

definition push_attribute :: "u16 \<Rightarrow> 'w gatt_characteristic \<Rightarrow> 'w state \<Rightarrow> 'w state" where
  "push_attribute h c s = s\<lparr>attributes := attributes s @ [\<lparr>attr_handle = h, attr_char = c\<rparr>]\<rparr>"

definition report :: "server_event \<Rightarrow> 'w state \<Rightarrow> 'w state" where
  "report e s = s\<lparr>events := send_ignored e (events s)\<rparr>"

section \<open>Connection events\<close>

definition handle_connected :: "u64 \<Rightarrow> u16 \<Rightarrow> u16 \<Rightarrow> 'w state \<Rightarrow> 'w state" where
  "handle_connected gen h value s =
     (let c = \<lparr>conn_handle = h, generation = gen, mtu = value\<rparr>
      in report (Connected c) (s\<lparr>connections := (connections s)(h \<mapsto> c)\<rparr>))"

definition handle_disconnected :: "u16 \<Rightarrow> 'w state \<Rightarrow> 'w state" where
  "handle_disconnected h s =
     (let s' = s\<lparr>subscriptions := retain_keys (\<lambda>(c, _). c \<noteq> h) (subscriptions s),
                 reads := retain_keys (\<lambda>(c, _). c \<noteq> h) (reads s),
                 pending := filter (\<lambda>(c, _, _). conn_handle c \<noteq> h) (pending s)\<rparr>
      in case connections s' h of
           Some c \<Rightarrow> report (Disconnected c) (s'\<lparr>connections := (connections s')(h := None)\<rparr>)
         | None \<Rightarrow> s')"

definition handle_mtu :: "u16 \<Rightarrow> u16 \<Rightarrow> 'w state \<Rightarrow> 'w state" where
  "handle_mtu h value s =
     (case connections s h of
        Some c \<Rightarrow> s\<lparr>connections := (connections s)(h \<mapsto> c\<lparr>mtu := value\<rparr>)\<rparr>
      | None \<Rightarrow> s)"

section \<open>The notification queue\<close>

definition push_pending :: "notification \<Rightarrow> 'w state \<Rightarrow> error + 'w state" where
  "push_pending n s =
     (if 128 \<le> length (pending s) then Inl Notification_Queue_Full
      else Inr (s\<lparr>pending := push_back n (pending s)\<rparr>))"

definition enqueue_notification ::
  "gatt_connection \<Rightarrow> uuid \<Rightarrow> bytes \<Rightarrow> 'w state \<Rightarrow> error + 'w state" where
  "enqueue_notification c u value s =
     (case connections s (conn_handle c) of
        None \<Rightarrow> Inl Inactive_Connection
      | Some current \<Rightarrow>
          if generation current \<noteq> generation c then Inl Inactive_Connection
          else case List.find (\<lambda>a. ch_uuid (attr_char a) = u) (attributes s) of
                 None \<Rightarrow> Inl Unknown_Characteristic
               | Some a \<Rightarrow>
                   if \<not> flag (subscriptions s) (conn_handle c, attr_handle a) then Inl Not_Subscribed
                   else if unat (saturating_sub_u16 (mtu current) 3) < length value
                   then Inl Exceeds_Mtu
                   else push_pending (current, attr_handle a, value) s)"

definition for_handle :: "u16 \<Rightarrow> notification \<Rightarrow> bool" where
  "for_handle h n \<longleftrightarrow> conn_handle (fst n) = h"

definition take_pending :: "u16 \<Rightarrow> 'w state \<Rightarrow> notification option \<times> 'w state" where
  "take_pending h s =
     (case remove_first (for_handle h) (pending s) of
        None \<Rightarrow> (None, s)
      | Some (n, rest) \<Rightarrow> (Some n, s\<lparr>pending := rest\<rparr>))"

definition has_pending :: "u16 \<Rightarrow> 'w state \<Rightarrow> bool" where
  "has_pending h s \<longleftrightarrow> list_ex (for_handle h) (pending s)"

section \<open>The invariant\<close>

definition live :: "'w state \<Rightarrow> u16 \<Rightarrow> bool" where
  "live s h \<longleftrightarrow> connections s h \<noteq> None"

definition notifying_handles :: "'w state \<Rightarrow> u16 set" where
  "notifying_handles s = set (map attr_handle (filter (\<lambda>a. notifies (attr_char a)) (attributes s)))"

definition connections_ok :: "'w state \<Rightarrow> bool" where
  "connections_ok s \<longleftrightarrow> (\<forall>h c. connections s h = Some c \<longrightarrow> conn_handle c = h)"

definition subscriptions_ok :: "'w state \<Rightarrow> bool" where
  "subscriptions_ok s \<longleftrightarrow>
     (\<forall>h a. subscriptions s (h, a) \<noteq> None \<longrightarrow> live s h \<and> a \<in> notifying_handles s)"

definition reads_ok :: "'w state \<Rightarrow> bool" where
  "reads_ok s \<longleftrightarrow> (\<forall>h a v. reads s (h, a) = Some v \<longrightarrow> live s h \<and> length v \<le> 512)"

definition pending_ok :: "'w state \<Rightarrow> bool" where
  "pending_ok s \<longleftrightarrow>
     length (pending s) \<le> 128
     \<and> (\<forall>(c, a, v) \<in> set (pending s).
          live s (conn_handle c) \<and> a \<in> notifying_handles s \<and> length v \<le> unat (mtu c) - 3)"

definition state_ok :: "'w state \<Rightarrow> bool" where
  "state_ok s \<longleftrightarrow> connections_ok s \<and> subscriptions_ok s \<and> reads_ok s \<and> pending_ok s"

lemmas state_ok_defs = state_ok_def connections_ok_def subscriptions_ok_def reads_ok_def
  pending_ok_def live_def notifying_handles_def

lemma report_frame [simp, frame]:
  "attributes (report e s) = attributes s"
  "connections (report e s) = connections s"
  "subscriptions (report e s) = subscriptions s"
  "reads (report e s) = reads s"
  "pending (report e s) = pending s"
  "events (report e s) = send_ignored e (events s)"
  by (simp_all add: report_def)

lemma state_ok_report [simp, inv_intros]: "state_ok (report e s) = state_ok s"
  by (simp add: state_ok_defs)

lemma state_ok_initial [inv_intros]: "state_ok initial_state"
  by (simp add: state_ok_defs initial_state_def)

text \<open>What each transition leaves alone, field by field.\<close>

lemma push_attribute_frame [simp, frame]:
  "attributes (push_attribute h c s) = attributes s @ [\<lparr>attr_handle = h, attr_char = c\<rparr>]"
  "connections (push_attribute h c s) = connections s"
  "subscriptions (push_attribute h c s) = subscriptions s"
  "reads (push_attribute h c s) = reads s"
  "pending (push_attribute h c s) = pending s"
  "events (push_attribute h c s) = events s"
  by (simp_all add: push_attribute_def)

lemma handle_connected_frame [simp, frame]:
  "attributes (handle_connected gen h v s) = attributes s"
  "connections (handle_connected gen h v s) =
     (connections s)(h \<mapsto> \<lparr>conn_handle = h, generation = gen, mtu = v\<rparr>)"
  "subscriptions (handle_connected gen h v s) = subscriptions s"
  "reads (handle_connected gen h v s) = reads s"
  "pending (handle_connected gen h v s) = pending s"
  by (simp_all add: handle_connected_def Let_def)

lemma handle_disconnected_frame [simp, frame]:
  "attributes (handle_disconnected h s) = attributes s"
  "connections (handle_disconnected h s) = (connections s)(h := None)"
  "subscriptions (handle_disconnected h s) = retain_keys (\<lambda>(c, _). c \<noteq> h) (subscriptions s)"
  "reads (handle_disconnected h s) = retain_keys (\<lambda>(c, _). c \<noteq> h) (reads s)"
  "pending (handle_disconnected h s) = filter (\<lambda>(c, _, _). conn_handle c \<noteq> h) (pending s)"
  by (cases "connections s h"; simp add: handle_disconnected_def fun_upd_idem)+

lemma handle_mtu_frame [simp, frame]:
  "attributes (handle_mtu h v s) = attributes s"
  "connections (handle_mtu h v s) =
     (connections s)(h := map_option (\<lambda>c. c\<lparr>mtu := v\<rparr>) (connections s h))"
  "subscriptions (handle_mtu h v s) = subscriptions s"
  "reads (handle_mtu h v s) = reads s"
  "pending (handle_mtu h v s) = pending s"
  "events (handle_mtu h v s) = events s"
  by (cases "connections s h"; simp add: handle_mtu_def fun_upd_idem)+

text \<open>
  The invariant depends on the connections only through the keys they hold, so the transitions
  share one argument: every key that is still used is still live.
\<close>

lemma live_frame [simp]:
  "live (report e s) h = live s h"
  "live (push_attribute g ch s) h = live s h"
  "live (handle_connected gen g v s) h = (h = g \<or> live s h)"
  "live (handle_disconnected g s) h = (h \<noteq> g \<and> live s h)"
  "live (handle_mtu g v s) h = live s h"
  by (simp_all add: live_def)

lemma notifying_handles_frame [simp]:
  "notifying_handles (report e s) = notifying_handles s"
  "notifying_handles (handle_connected gen g v s) = notifying_handles s"
  "notifying_handles (handle_disconnected g s) = notifying_handles s"
  "notifying_handles (handle_mtu g v s) = notifying_handles s"
  "notifying_handles (push_attribute h ch s) =
     (if notifies ch then insert h (notifying_handles s) else notifying_handles s)"
  by (auto simp: notifying_handles_def)

lemmas state_ok_parts = state_ok_def connections_ok_def subscriptions_ok_def reads_ok_def
  pending_ok_def

lemma state_ok_push_attribute [inv_intros]: "state_ok s \<Longrightarrow> state_ok (push_attribute h c s)"
  by (auto simp: state_ok_parts)

lemma state_ok_connected [inv_intros]: "state_ok s \<Longrightarrow> state_ok (handle_connected gen h v s)"
  by (auto simp: state_ok_parts)

lemma state_ok_disconnected [inv_intros]: "state_ok s \<Longrightarrow> state_ok (handle_disconnected h s)"
  by (auto simp: state_ok_parts split: if_splits intro: le_trans [OF length_filter_le])

lemma state_ok_mtu [inv_intros]: "state_ok s \<Longrightarrow> state_ok (handle_mtu h v s)"
  by (auto simp: state_ok_parts split: if_splits)

section \<open>Enqueueing\<close>

lemma enqueue_Inr_iff:
  "enqueue_notification c u v s = Inr s' \<longleftrightarrow>
     (\<exists>current a.
        connections s (conn_handle c) = Some current \<and> generation current = generation c
        \<and> List.find (\<lambda>a. ch_uuid (attr_char a) = u) (attributes s) = Some a
        \<and> flag (subscriptions s) (conn_handle c, attr_handle a)
        \<and> length v \<le> unat (mtu current) - 3
        \<and> length (pending s) < 128
        \<and> s' = s\<lparr>pending := pending s @ [(current, attr_handle a, v)]\<rparr>)"
  by (auto simp: enqueue_notification_def push_pending_def push_back_def unat_saturating_sub_u16
      split: option.split)

lemma flag_imp_notifying:
  "\<lbrakk> subscriptions_ok s; flag (subscriptions s) (h, a) \<rbrakk> \<Longrightarrow> live s h \<and> a \<in> notifying_handles s"
  by (auto simp: subscriptions_ok_def flag_def split: option.splits)

lemma pending_update_frame [simp]:
  "live (s\<lparr>pending := p\<rparr>) h = live s h"
  "notifying_handles (s\<lparr>pending := p\<rparr>) = notifying_handles s"
  by (simp_all add: live_def notifying_handles_def)

lemma state_ok_enqueue:
  fixes s :: "'w state"
  assumes "state_ok s" and "enqueue_notification c u v s = Inr s'"
  shows "state_ok s'"
proof -
  from assms(2) obtain current and a :: "'w attribute" where
    cur: "connections s (conn_handle c) = Some current"
    and sub: "flag (subscriptions s) (conn_handle c, attr_handle a)"
    and len: "length v \<le> unat (mtu current) - 3" "length (pending s) < 128"
    and s': "s' = s\<lparr>pending := pending s @ [(current, attr_handle a, v)]\<rparr>"
    unfolding enqueue_Inr_iff by (elim exE conjE) (rule that)
  from assms(1) cur have "conn_handle current = conn_handle c"
    by (simp add: state_ok_parts)
  moreover have "live s (conn_handle c) \<and> attr_handle a \<in> notifying_handles s"
    using assms(1) sub by (intro flag_imp_notifying) (simp add: state_ok_def)
  ultimately show ?thesis
    using assms(1) len by (auto simp: s' state_ok_parts)
qed

section \<open>Taking the next notification of a connection\<close>

lemma take_pending_None_iff: "take_pending h s = (None, s) \<longleftrightarrow> \<not> has_pending h s"
proof (cases "remove_first (for_handle h) (pending s)")
  case None
  then have "\<not> has_pending h s"
    by (simp add: has_pending_def list_ex_iff remove_first_None_iff)
  with None show ?thesis by (simp add: take_pending_def)
next
  case (Some r)
  then have "has_pending h s"
    by (cases r) (auto dest!: remove_first_SomeD simp: has_pending_def)
  with Some show ?thesis by (cases r) (simp add: take_pending_def)
qed

lemma take_pending_frame [frame]:
  assumes "take_pending h s = (n, s')"
  shows "attributes s' = attributes s" "connections s' = connections s"
    "subscriptions s' = subscriptions s" "reads s' = reads s" "events s' = events s"
  using assms by (auto simp: take_pending_def split: option.splits)

lemma take_pending_NoneD: "take_pending h s = (None, s') \<Longrightarrow> s' = s"
  by (auto simp: take_pending_def split: option.splits)

lemma take_pending_SomeD:
  assumes "take_pending h s = (Some n, s')"
  shows "remove_first (for_handle h) (pending s) = Some (n, pending s')"
    and "s' = s\<lparr>pending := pending s'\<rparr>"
  using assms by (auto simp: take_pending_def split: option.splits)

lemma take_pending_length:
  "take_pending h s = (Some n, s') \<Longrightarrow> length (pending s) = Suc (length (pending s'))"
  by (rule remove_first_length [OF take_pending_SomeD(1)])

lemma take_pending_handle:
  "take_pending h s = (Some n, s') \<Longrightarrow> conn_handle (fst n) = h \<and> n \<in> set (pending s)"
  by (drule take_pending_SomeD(1), drule remove_first_SomeD) (auto simp: for_handle_def)

lemma state_ok_take_pending:
  assumes "state_ok s" and "take_pending h s = (n, s')"
  shows "state_ok s'"
proof (cases n)
  case None
  with assms show ?thesis by (auto dest: take_pending_NoneD)
next
  case (Some m)
  note t = assms(2) [unfolded Some]
  have "set (pending s') \<subseteq> set (pending s)"
    using remove_first_subset [OF take_pending_SomeD(1) [OF t]] by blast
  moreover have "length (pending s') \<le> 128"
    using take_pending_length [OF t] assms(1) by (simp add: state_ok_parts)
  ultimately show ?thesis
    using assms(1) by (subst take_pending_SomeD(2) [OF t]) (auto simp: state_ok_parts)
qed

section \<open>Each connection's queue is first in, first out\<close>

text \<open>
  The one queue holds the notifications of every connection; the part of one connection is a queue
  of its own, whatever the others do.
\<close>

definition peer_items :: "u16 \<Rightarrow> 'w state \<Rightarrow> (u16 \<times> bytes) list" where
  "peer_items h s = map snd (filter (for_handle h) (pending s))"

definition peer_push :: "gatt_connection \<Rightarrow> u16 \<times> bytes \<Rightarrow> 'w state \<Rightarrow> 'w state" where
  "peer_push c x s = (case push_pending (c, x) s of Inl _ \<Rightarrow> s | Inr s' \<Rightarrow> s')"

definition peer_pop :: "u16 \<Rightarrow> 'w state \<Rightarrow> ((u16 \<times> bytes) \<times> 'w state) option" where
  "peer_pop h s =
     (case take_pending h s of (None, _) \<Rightarrow> None | (Some n, s') \<Rightarrow> Some (snd n, s'))"

lemma take_pending_items:
  assumes "take_pending h s = (Some n, s')"
  shows "peer_items h s = snd n # peer_items h s'"
    and "g \<noteq> h \<Longrightarrow> peer_items g s' = peer_items g s"
proof -
  note r = take_pending_SomeD(1) [OF assms]
  show "peer_items h s = snd n # peer_items h s'"
    using remove_first_filter_same [OF r] by (simp add: peer_items_def)
  assume "g \<noteq> h"
  then show "peer_items g s' = peer_items g s"
    using remove_first_filter_other [OF r, of "for_handle g"] by (simp add: peer_items_def for_handle_def)
qed

lemma take_pending_empty: "peer_items h s = [] \<Longrightarrow> take_pending h s = (None, s)"
proof -
  assume "peer_items h s = []"
  then have "\<not> has_pending h s"
    by (auto simp: peer_items_def has_pending_def list_ex_iff filter_empty_conv)
  then show ?thesis by (simp add: take_pending_None_iff)
qed

interpretation peer_queue: fifo_queue
  "peer_items (conn_handle c)" "\<lambda>s. length (pending s) < 128" "peer_push c" "peer_pop (conn_handle c)"
  for c
proof (unfold_locales, goal_cases)
  case (1 q x)
  then show ?case
    by (simp add: peer_items_def peer_push_def push_pending_def push_back_def for_handle_def)
next
  case (2 q x)
  then show ?case by (simp add: peer_push_def push_pending_def)
next
  case (3 q)
  then show ?case by (simp add: peer_pop_def take_pending_empty)
next
  case (4 q x xs)
  obtain no s' where t: "take_pending (conn_handle c) q = (no, s')"
    by (cases "take_pending (conn_handle c) q")
  have "no \<noteq> None"
  proof
    assume "no = None"
    then have "\<not> has_pending (conn_handle c) q"
      using t take_pending_NoneD [of "conn_handle c" q s'] by (simp add: take_pending_None_iff [symmetric])
    then have "peer_items (conn_handle c) q = []"
      by (auto simp: peer_items_def has_pending_def list_ex_iff filter_empty_conv)
    with 4 show False by simp
  qed
  then obtain n where n: "no = Some n" by blast
  with t 4 take_pending_items(1) [of "conn_handle c" q n s'] show ?case
    by (simp add: peer_pop_def)
qed

end
