(* ===== verification/Att_Interface.thy ===== *)
theory Att_Interface
  imports Prelude
begin

text \<open>
  How an ATT server is read: the stack probes the length of a value, then copies it in pieces, each
  request naming an offset and a buffer length (Read, Read Blob). \<open>read_blobs\<close> is that client, and
  the locale \<open>long_read\<close> states what it needs of the server: while one value is held, a copy at an
  offset returns the bytes there and keeps holding the value. The client's theorem, that the pieces
  make up the whole value, is proved once here.
\<close>

fun read_blobs :: "('s \<Rightarrow> nat \<Rightarrow> nat \<Rightarrow> 's \<times> bytes) \<Rightarrow> nat \<Rightarrow> nat \<Rightarrow> nat \<Rightarrow> 's \<Rightarrow> 's \<times> bytes" where
  "read_blobs copy n 0 pos s = (s, [])"
| "read_blobs copy n (Suc fuel) pos s =
     (let (s', bs) = copy s pos n
      in if length bs < n then (s', bs)
         else let (s'', rest) = read_blobs copy n fuel (pos + length bs) s' in (s'', bs @ rest))"

locale long_read =
  fixes copy :: "'s \<Rightarrow> nat \<Rightarrow> nat \<Rightarrow> 's \<times> bytes"
    and holds :: "'s \<Rightarrow> bytes \<Rightarrow> bool"
  assumes copy_holds:
    "\<lbrakk> holds s v; pos \<le> length v; n < 65536 \<rbrakk>
       \<Longrightarrow> \<exists>s'. copy s pos n = (s', take n (drop pos v)) \<and> holds s' v"
begin

lemma read_blobs_suffix:
  assumes "0 < n" and "n < 65536"
  shows "\<lbrakk> holds s v; pos \<le> length v; length v - pos < fuel * n \<rbrakk>
     \<Longrightarrow> \<exists>s'. read_blobs copy n fuel pos s = (s', drop pos v) \<and> holds s' v"
proof (induction fuel arbitrary: pos s)
  case 0
  then show ?case by simp
next
  case (Suc fuel)
  from copy_holds [OF Suc.prems(1,2) assms(2)] obtain s1 where
    s1: "copy s pos n = (s1, take n (drop pos v))" "holds s1 v" by blast
  show ?case
  proof (cases "length v - pos < n")
    case True
    with s1 show ?thesis by simp
  next
    case False
    then have "length (take n (drop pos v)) = n" by simp
    moreover from False Suc.prems have
      "\<exists>s'. read_blobs copy n fuel (pos + n) s1 = (s', drop (pos + n) v) \<and> holds s' v"
      using assms(1) by (intro Suc.IH [OF s1(2)]) auto
    then obtain s2 where "read_blobs copy n fuel (pos + n) s1 = (s2, drop (pos + n) v)" "holds s2 v"
      by blast
    ultimately show ?thesis
      using s1 False by (simp add: add.commute flip: drop_drop)
  qed
qed

text \<open>Reading from the start gives the whole value, with one more request than full pieces at most.\<close>

lemma read_blobs_all:
  assumes "holds s v" and "0 < n" and "n < 65536" and "length v div n < fuel"
  shows "\<exists>s'. read_blobs copy n fuel 0 s = (s', v) \<and> holds s' v"
proof -
  have "length v < Suc (length v div n) * n"
    using assms(2) dividend_less_div_times [of n "length v"] by simp
  also have "\<dots> \<le> fuel * n" using assms(4) by (intro mult_le_mono) simp_all
  finally show ?thesis
    using read_blobs_suffix [OF assms(2,3,1), of 0 fuel] by simp
qed

end

end
