(* ===== verification/Att_Callbacks.thy ===== *)
theory Att_Callbacks
  imports Server_State Att_Interface
begin

text \<open>
  The two ATT callbacks of btstack-core/src/runtime.rs that BTstack calls for every attribute
  access: \<^verbatim>\<open>read\<close> (a length probe with a null buffer, then copies at offsets, all from one
  snapshot) and \<^verbatim>\<open>write\<close> (CCCD writes handled here, value writes handed to the application).
  Both take the application's state, the server state (\<^verbatim>\<open>None\<close> before start and after stop) and the
  build's overflow-check setting, and contain every panic. The buffer of \<^verbatim>\<open>read\<close> is the flag
  \<open>null\<close> and the list of bytes copied to its start; the buffer of \<^verbatim>\<open>write\<close> is the memory it
  points at.
\<close>

section \<open>Finding the attribute\<close>

fun find_attribute :: "bool \<Rightarrow> u16 \<Rightarrow> 'w attribute list \<Rightarrow> 'w attribute option outcome" where
  "find_attribute oc attribute [] = Returned None"
| "find_attribute oc attribute (a # as) =
     (if attr_handle a = attribute then Returned (Some a)
      else if notifies (attr_char a)
      then case add_u16 oc (attr_handle a) 1 of
             Panicked \<Rightarrow> Panicked
           | Returned cccd \<Rightarrow>
               if cccd = attribute then Returned (Some a) else find_attribute oc attribute as
      else find_attribute oc attribute as)"

lemma find_attribute_SomeD:
  "find_attribute oc attribute as = Returned (Some a) \<Longrightarrow>
     a \<in> set as
     \<and> (attr_handle a = attribute \<or> notifies (attr_char a) \<and> attr_handle a + 1 = attribute)"
  by (induction oc attribute as rule: find_attribute.induct)
    (auto simp: add_u16_def split: if_splits)

lemma find_attribute_no_overflow:
  "\<forall>a \<in> set as. attr_handle a \<noteq> 0xffff \<Longrightarrow> find_attribute oc attribute as \<noteq> Panicked"
  by (induction oc attribute as rule: find_attribute.induct)
    (auto simp: add_u16_def dest: u16_not_max)

section \<open>Reading\<close>

text \<open>The value of an attribute: the CCCD's two bytes, or what the application's handler returns.\<close>

definition read_value ::
  "'w \<Rightarrow> 'w state \<Rightarrow> gatt_connection \<Rightarrow> 'w attribute \<Rightarrow> u16 \<Rightarrow> u16 \<Rightarrow> 'w \<times> (u16 + bytes) outcome" where
  "read_value app s c a connection attribute =
     (if attr_handle a \<noteq> attribute
      then (app, Returned (Inr [of_bool (flag (subscriptions s) (connection, attr_handle a)), 0]))
      else case read_fn (attr_char a) of
             None \<Rightarrow> (app, Returned (Inl (0xfe00 + status_u16 ReadNotPermitted)))
           | Some f \<Rightarrow>
               (case f app \<lparr>rd_connection = c\<rparr> of
                  (app', Panicked) \<Rightarrow> (app', Panicked)
                | (app', Returned (Inr value)) \<Rightarrow>
                    (app', Returned (if length value \<le> 512 then Inr value else Inl 0xfe0d))
                | (app', Returned (Inl e)) \<Rightarrow> (app', Returned (Inl (0xfe00 + status_u16 e)))))"

definition refresh_snapshot ::
  "'w \<Rightarrow> 'w state \<Rightarrow> gatt_connection \<Rightarrow> 'w attribute \<Rightarrow> u16 \<Rightarrow> u16 \<Rightarrow> bool
     \<Rightarrow> 'w \<times> 'w state \<times> (u16 + unit) outcome" where
  "refresh_snapshot app s c a connection attribute null =
     (if null \<or> reads s (connection, attribute) = None
      then case read_value app s c a connection attribute of
             (app', Panicked) \<Rightarrow> (app', s, Panicked)
           | (app', Returned (Inl code)) \<Rightarrow> (app', s, Returned (Inl code))
           | (app', Returned (Inr value)) \<Rightarrow>
               (app', s\<lparr>reads := (reads s)((connection, attribute) \<mapsto> value)\<rparr>, Returned (Inr ()))
      else (app, s, Returned (Inr ())))"

definition copy_value :: "bytes \<Rightarrow> u16 \<Rightarrow> bool \<Rightarrow> u16 \<Rightarrow> u16 \<times> bytes" where
  "copy_value value offset null buf_size =
     (if length value < unat offset then (0xfe07, [])
      else if null then (word_of_nat (length value), [])
      else let rest = drop (unat offset) value;
               len = min (length rest) (unat buf_size)
           in (word_of_nat len, take len rest))"

definition read_body ::
  "bool \<Rightarrow> 'w \<Rightarrow> 'w state \<Rightarrow> u16 \<Rightarrow> u16 \<Rightarrow> u16 \<Rightarrow> bool \<Rightarrow> u16
     \<Rightarrow> 'w \<times> 'w state \<times> (u16 \<times> bytes) outcome" where
  "read_body oc app s connection attribute offset null buf_size =
     (case connections s connection of
        None \<Rightarrow> (app, s, Returned (0xfe0e, []))
      | Some c \<Rightarrow>
          (case find_attribute oc attribute (attributes s) of
             Panicked \<Rightarrow> (app, s, Panicked)
           | Returned None \<Rightarrow> (app, s, Returned (0xfe02, []))
           | Returned (Some a) \<Rightarrow>
               (case refresh_snapshot app s c a connection attribute null of
                  (app', s', Panicked) \<Rightarrow> (app', s', Panicked)
                | (app', s', Returned (Inl code)) \<Rightarrow> (app', s', Returned (code, []))
                | (app', s', Returned (Inr _)) \<Rightarrow>
                    (app', s',
                     case reads s' (connection, attribute) of
                       None \<Rightarrow> Panicked
                     | Some value \<Rightarrow> Returned (copy_value value offset null buf_size)))))"

definition att_read ::
  "bool \<Rightarrow> 'w \<Rightarrow> 'w state option \<Rightarrow> u16 \<Rightarrow> u16 \<Rightarrow> u16 \<Rightarrow> bool \<Rightarrow> u16
     \<Rightarrow> 'w \<times> 'w state option \<times> u16 \<times> bytes" where
  "att_read oc app st connection attribute offset null buf_size =
     (case st of
        None \<Rightarrow> (app, None, 0xfe0e, [])
      | Some s \<Rightarrow>
          (case read_body oc app s connection attribute offset null buf_size of
             (app', s', r) \<Rightarrow> (app', Some s', catch_unwind (0xfe0e, []) r)))"

section \<open>Writing\<close>

definition set_subscription ::
  "'w state \<Rightarrow> gatt_connection \<Rightarrow> 'w attribute \<Rightarrow> u16 \<Rightarrow> u16 \<Rightarrow> bool \<Rightarrow> 'w state" where
  "set_subscription s c a connection attribute enabled =
     report (SubscriptionChanged c (ch_uuid (attr_char a))
         (if enabled then Subscription_Notify else Subscription_None))
       (s\<lparr>subscriptions := (subscriptions s)((connection, attr_handle a) \<mapsto> enabled),
          reads := (reads s)((connection, attribute) := None)\<rparr>)"

definition write_cccd ::
  "'w state \<Rightarrow> gatt_connection \<Rightarrow> 'w attribute \<Rightarrow> u16 \<Rightarrow> u16 \<Rightarrow> bytes \<Rightarrow> 'w state \<times> i32" where
  "write_cccd s c a connection attribute value =
     (if length value \<noteq> 2 then (s, status_i32 InvalidValueLength)
      else if value ! 1 \<noteq> 0 \<or> 1 < value ! 0 then (s, status_i32 ValueNotAllowed)
      else (set_subscription s c a connection attribute (value ! 0 = 1), 0))"

definition write_value ::
  "'w \<Rightarrow> 'w state \<Rightarrow> gatt_connection \<Rightarrow> 'w attribute \<Rightarrow> u16 \<Rightarrow> u16 \<Rightarrow> bytes
     \<Rightarrow> 'w \<times> 'w state \<times> i32 outcome" where
  "write_value app s c a connection attribute value =
     (if 512 < length value then (app, s, Returned (status_i32 InvalidValueLength))
      else case write_fn (attr_char a) of
             None \<Rightarrow> (app, s, Returned (status_i32 WriteNotPermitted))
           | Some f \<Rightarrow>
               (case f app \<lparr>wr_connection = c, wr_value = value\<rparr> of
                  (app', Panicked) \<Rightarrow> (app', s, Panicked)
                | (app', Returned (Inr _)) \<Rightarrow>
                    (app', s\<lparr>reads := (reads s)((connection, attribute) := None)\<rparr>, Returned 0)
                | (app', Returned (Inl e)) \<Rightarrow> (app', s, Returned (status_i32 e))))"

definition write_body ::
  "bool \<Rightarrow> 'w \<Rightarrow> 'w state \<Rightarrow> u16 \<Rightarrow> u16 \<Rightarrow> bytes \<Rightarrow> 'w \<times> 'w state \<times> i32 outcome" where
  "write_body oc app s connection attribute value =
     (case connections s connection of
        None \<Rightarrow> (app, s, Returned (status_i32 UnlikelyError))
      | Some c \<Rightarrow>
          (case find_attribute oc attribute (attributes s) of
             Panicked \<Rightarrow> (app, s, Panicked)
           | Returned None \<Rightarrow> (app, s, Returned (status_i32 WriteNotPermitted))
           | Returned (Some a) \<Rightarrow>
               if attr_handle a \<noteq> attribute
               then (case write_cccd s c a connection attribute value of
                       (s', r) \<Rightarrow> (app, s', Returned r))
               else write_value app s c a connection attribute value))"

definition att_write ::
  "bool \<Rightarrow> 'w \<Rightarrow> 'w state option \<Rightarrow> u16 \<Rightarrow> u16 \<Rightarrow> u16 \<Rightarrow> u16 \<Rightarrow> bytes \<Rightarrow> u16
     \<Rightarrow> 'w \<times> 'w state option \<times> i32" where
  "att_write oc app st connection attribute mode offset buffer buf_size =
     (if mode \<noteq> 0 then (app, st, status_i32 RequestNotSupported)
      else if offset \<noteq> 0 then (app, st, status_i32 InvalidOffset)
      else let value = (if buf_size = 0 then [] else take (unat buf_size) buffer)
           in case st of
                None \<Rightarrow> (app, None, status_i32 UnlikelyError)
              | Some s \<Rightarrow>
                  (case write_body oc app s connection attribute value of
                     (app', s', r) \<Rightarrow>
                       (app', Some s', catch_unwind (status_i32 UnlikelyError) r)))"

section \<open>What a callback may change\<close>

lemma read_value_length:
  "read_value app s c a connection attribute = (app', Returned (Inr v)) \<Longrightarrow> length v \<le> 512"
  by (auto simp: read_value_def split: if_splits option.splits prod.splits outcome.splits sum.splits)

lemma refresh_snapshot_state:
  assumes "refresh_snapshot app s c a connection attribute null = (app', s', r)"
  shows "s' = s \<or>
    (\<exists>v. length v \<le> 512 \<and> s' = s\<lparr>reads := (reads s)((connection, attribute) \<mapsto> v)\<rparr>)"
proof (cases "null \<or> reads s (connection, attribute) = None")
  case True
  obtain app1 r1 where v: "read_value app s c a connection attribute = (app1, r1)"
    by (cases "read_value app s c a connection attribute") blast
  show ?thesis
  proof (cases "\<exists>x. r1 = Returned (Inr x)")
    case True
    then obtain x where r1: "r1 = Returned (Inr x)" by blast
    with v have "length x \<le> 512" by (simp add: read_value_length)
    with assms \<open>null \<or> _\<close> v r1 show ?thesis by (auto simp: refresh_snapshot_def)
  next
    case False
    with assms \<open>null \<or> _\<close> v show ?thesis
      by (auto simp: refresh_snapshot_def split: outcome.splits sum.splits)
  qed
next
  case False
  with assms show ?thesis by (auto simp: refresh_snapshot_def)
qed

lemma read_body_state:
  assumes "read_body oc app s connection attribute offset null buf_size = (app', s', r)"
  shows "s' = s \<or>
    (live s connection \<and>
     (\<exists>v. length v \<le> 512 \<and> s' = s\<lparr>reads := (reads s)((connection, attribute) \<mapsto> v)\<rparr>))"
proof -
  have "s' = s \<or> (live s connection \<and>
      (\<exists>c a app1 r1. refresh_snapshot app s c a connection attribute null = (app1, s', r1)))"
    using assms
    by (auto simp: read_body_def live_def
        split: option.splits outcome.splits prod.splits sum.splits)
  then show ?thesis
  proof (elim disjE conjE exE)
    fix c a app1 r1
    assume "live s connection" and "refresh_snapshot app s c a connection attribute null = (app1, s', r1)"
    then show ?thesis using refresh_snapshot_state by metis
  qed simp
qed

lemma write_cccd_cases:
  assumes "write_cccd s c a connection attribute value = (s', r)"
  shows "s' = s \<and> r \<noteq> 0
    \<or> (\<exists>enabled. value = [of_bool enabled, 0] \<and> r = 0
        \<and> s' = set_subscription s c a connection attribute enabled)"
proof (cases "length value = 2 \<and> value ! 1 = 0 \<and> \<not> 1 < value ! 0")
  case True
  then obtain b where val: "value = [b, 0]" and "b \<le> 1"
    by (auto simp: length_Suc_conv numeral_2_eq_2)
  from \<open>b \<le> 1\<close> consider "b = 0" | "b = 1" using u8_le_1 by blast
  then show ?thesis
    using assms val by cases (auto simp: write_cccd_def)
next
  case False
  then have "write_cccd s c a connection attribute value =
      (s, status_i32 (if length value \<noteq> 2 then InvalidValueLength else ValueNotAllowed))"
    by (cases "length value = 2") (simp_all only: write_cccd_def if_True if_False simp_thms de_Morgan_conj)
  with assms have "s' = s" and "r \<noteq> 0" by (simp_all only: prod.inject) (metis status_i32_nonzero)
  then show ?thesis by blast
qed

lemma write_value_state:
  assumes "write_value app s c a connection attribute value = (app', s', r)"
  shows "s' = s \<or> s' = s\<lparr>reads := (reads s)((connection, attribute) := None)\<rparr>"
  using assms
  by (auto simp: write_value_def split: if_splits option.splits prod.splits outcome.splits sum.splits)

lemma write_body_state:
  assumes "write_body oc app s connection attribute value = (app', s', r)"
  shows "s' = s
    \<or> s' = s\<lparr>reads := (reads s)((connection, attribute) := None)\<rparr>
    \<or> (\<exists>c a enabled. connections s connection = Some c \<and> a \<in> set (attributes s)
        \<and> notifies (attr_char a)
        \<and> s' = set_subscription s c a connection attribute enabled)"
proof -
  have "s' = s
      \<or> (\<exists>c a r1. connections s connection = Some c \<and> a \<in> set (attributes s) \<and> notifies (attr_char a)
          \<and> write_cccd s c a connection attribute value = (s', r1))
      \<or> (\<exists>c a app1 r1. write_value app s c a connection attribute value = (app1, s', r1))"
    using assms find_attribute_SomeD [of oc attribute "attributes s"]
    by (auto simp: write_body_def split: option.splits outcome.splits prod.splits if_splits)
  then show ?thesis
    using write_value_state write_cccd_cases by metis
qed

section \<open>The callbacks keep the state invariant\<close>

lemma reads_update_frame [simp]:
  "live (s\<lparr>reads := r\<rparr>) h = live s h"
  "notifying_handles (s\<lparr>reads := r\<rparr>) = notifying_handles s"
  by (simp_all add: live_def notifying_handles_def)

lemma set_subscription_frame [simp, frame]:
  "attributes (set_subscription s c a connection attribute e) = attributes s"
  "connections (set_subscription s c a connection attribute e) = connections s"
  "subscriptions (set_subscription s c a connection attribute e) =
     (subscriptions s)((connection, attr_handle a) \<mapsto> e)"
  "reads (set_subscription s c a connection attribute e) =
     (reads s)((connection, attribute) := None)"
  "pending (set_subscription s c a connection attribute e) = pending s"
  "live (set_subscription s c a connection attribute e) h = live s h"
  "notifying_handles (set_subscription s c a connection attribute e) = notifying_handles s"
  by (simp_all add: set_subscription_def live_def notifying_handles_def)

lemma state_ok_snapshot [inv_intros]:
  "\<lbrakk> state_ok s; live s h; length v \<le> 512 \<rbrakk> \<Longrightarrow> state_ok (s\<lparr>reads := (reads s)((h, a) \<mapsto> v)\<rparr>)"
  by (auto simp: state_ok_parts split: if_splits)

lemma state_ok_drop_snapshot [inv_intros]:
  "state_ok s \<Longrightarrow> state_ok (s\<lparr>reads := (reads s)(k := None)\<rparr>)"
  by (auto simp: state_ok_parts split: if_splits)

lemma state_ok_set_subscription [inv_intros]:
  assumes "state_ok s" and "connections s connection = Some c"
    and "a \<in> set (attributes s)" and "notifies (attr_char a)"
  shows "state_ok (set_subscription s c a connection attribute e)"
proof -
  have "attr_handle a \<in> notifying_handles s" and "live s connection"
    using assms(2-4) by (auto simp: notifying_handles_def live_def)
  with assms(1) show ?thesis by (auto simp: state_ok_parts split: if_splits)
qed

text \<open>What both callbacks leave alone, whatever they return.\<close>

definition callback_frame :: "u16 \<Rightarrow> 'w state \<Rightarrow> 'w state \<Rightarrow> bool" where
  "callback_frame connection s s' \<longleftrightarrow>
     attributes s' = attributes s \<and> connections s' = connections s \<and> pending s' = pending s
     \<and> (\<forall>h a. h \<noteq> connection \<longrightarrow>
          subscriptions s' (h, a) = subscriptions s (h, a) \<and> reads s' (h, a) = reads s (h, a))"

lemma read_body_ok:
  assumes "read_body oc app s connection attribute offset null buf_size = (app', s', r)"
  shows "callback_frame connection s s'" and "subscriptions s' = subscriptions s"
    and "events s' = events s" and "state_ok s \<Longrightarrow> state_ok s'"
  using read_body_state [OF assms] by (auto simp: callback_frame_def intro: inv_intros)

lemma write_body_ok:
  assumes "write_body oc app s connection attribute value = (app', s', r)"
  shows "callback_frame connection s s'" and "state_ok s \<Longrightarrow> state_ok s'"
  using write_body_state [OF assms] by (auto simp: callback_frame_def intro: inv_intros)

lemma att_read_ok:
  assumes "att_read oc app (Some s) connection attribute offset null buf_size = (app', st', r, bs)"
  obtains s' where "st' = Some s'" "callback_frame connection s s'"
    "subscriptions s' = subscriptions s" "events s' = events s" "state_ok s \<longrightarrow> state_ok s'"
  using assms read_body_ok
  by (cases "read_body oc app s connection attribute offset null buf_size")
    (fastforce simp: att_read_def)

lemma att_write_ok:
  assumes "att_write oc app (Some s) connection attribute mode offset bs buf_size = (app', st', r)"
  obtains s' where "st' = Some s'" "callback_frame connection s s'" "state_ok s \<longrightarrow> state_ok s'"
proof -
  let ?v = "if buf_size = 0 then [] else take (unat buf_size) bs"
  obtain app1 s1 r1 where w: "write_body oc app s connection attribute ?v = (app1, s1, r1)"
    by (cases "write_body oc app s connection attribute ?v") blast
  show ?thesis
  proof (cases "mode = 0 \<and> offset = 0")
    case True
    then have "st' = Some s1" using assms w by (simp add: att_write_def)
    then show ?thesis using write_body_ok [OF w] that by blast
  next
    case False
    then have "st' = Some s" using assms by (auto simp: att_write_def split: if_splits)
    then show ?thesis using that [of s] by (simp add: callback_frame_def)
  qed
qed

section \<open>Reads come from the snapshot\<close>

definition snapshot :: "bool \<Rightarrow> u16 \<Rightarrow> u16 \<Rightarrow> 'w state \<Rightarrow> bytes \<Rightarrow> bool" where
  "snapshot oc connection attribute s v \<longleftrightarrow>
     live s connection \<and> reads s (connection, attribute) = Some v \<and> length v \<le> 512
     \<and> (\<exists>a. find_attribute oc attribute (attributes s) = Returned (Some a))"

lemma read_snapshot:
  assumes "snapshot oc connection attribute s v"
  shows "att_read oc app (Some s) connection attribute offset False buf_size =
     (app, Some s, copy_value v offset False buf_size)"
  using assms
  by (auto simp: snapshot_def live_def att_read_def read_body_def refresh_snapshot_def
      catch_unwind_def)

lemma status_u16_error: "0xfe00 \<le> 0xfe00 + status_u16 e"
  by (cases e) (simp_all add: status_u16_def)

lemma read_value_error:
  "read_value app s c a connection attribute = (app', Returned (Inl code)) \<Longrightarrow> 0xfe00 \<le> code"
  by (auto simp: read_value_def status_u16_error
      split: if_splits option.splits prod.splits outcome.splits sum.splits)

text \<open>Every read either fails with an error code and copies nothing, or answers from a snapshot.\<close>

lemma read_body_cases:
  assumes "read_body oc app s connection attribute offset null buf_size = (app', s', r)"
    and "reads_ok s"
  shows "catch_unwind (0xfe0e, []) r = (code, bs) \<Longrightarrow>
    (0xfe00 \<le> code \<and> bs = [])
    \<or> (\<exists>v. snapshot oc connection attribute s' v \<and> (code, bs) = copy_value v offset null buf_size)"
proof -
  assume ret: "catch_unwind (0xfe0e, []) r = (code, bs)"
  show ?thesis
  proof (cases "connections s connection")
    case None
    with assms ret show ?thesis by (auto simp: read_body_def catch_unwind_def)
  next
    case (Some c)
    note conn = this
    show ?thesis
    proof (cases "\<exists>a. find_attribute oc attribute (attributes s) = Returned (Some a)")
      case False
      with assms ret conn show ?thesis
        by (auto simp: read_body_def catch_unwind_def split: outcome.splits option.splits)
    next
      case True
      then obtain a where a: "find_attribute oc attribute (attributes s) = Returned (Some a)" by blast
      obtain app1 s1 r1 where f: "refresh_snapshot app s c a connection attribute null = (app1, s1, r1)"
        by (cases "refresh_snapshot app s c a connection attribute null") blast
      show ?thesis
      proof (cases r1)
        case Panicked
        with assms ret conn a f show ?thesis by (auto simp: read_body_def catch_unwind_def)
      next
        case (Returned r2)
        note r1 = this
        show ?thesis
        proof (cases r2)
          case (Inl e)
          have "0xfe00 \<le> e"
            using f r1 Inl
            by (auto simp: refresh_snapshot_def
                split: if_splits prod.splits outcome.splits sum.splits dest: read_value_error)
          with assms ret conn a f r1 Inl show ?thesis by (auto simp: read_body_def catch_unwind_def)
        next
          case (Inr u)
          have "\<exists>v. reads s1 (connection, attribute) = Some v \<and> length v \<le> 512"
            using f r1 Inr assms(2)
            by (auto simp: refresh_snapshot_def reads_ok_def
                split: if_splits prod.splits outcome.splits sum.splits dest: read_value_length)
          then obtain v where v: "reads s1 (connection, attribute) = Some v" "length v \<le> 512"
            by blast
          have "connections s1 = connections s" "attributes s1 = attributes s"
            using refresh_snapshot_state [OF f] by auto
          with assms(1) ret conn a f r1 Inr v have
            "snapshot oc connection attribute s' v" "(code, bs) = copy_value v offset null buf_size"
            by (auto simp: read_body_def catch_unwind_def snapshot_def live_def)
          then show ?thesis by blast
        qed
      qed
    qed
  qed
qed

lemma copy_value_cases:
  assumes "copy_value v offset null buf_size = (code, bs)" and "length v \<le> 512"
  shows "(code = 0xfe07 \<and> bs = [] \<and> length v < unat offset)
    \<or> (unat offset \<le> length v \<and> unat code \<le> 512
        \<and> (if null then unat code = length v \<and> bs = []
           else bs = take (unat buf_size) (drop (unat offset) v) \<and> unat code = length bs))"
proof -
  define len where "len = min (length v - unat offset) (unat buf_size)"
  then have "take (unat buf_size) (drop (unat offset) v) = take len (drop (unat offset) v)"
    and "len \<le> 512" and "length (take len (drop (unat offset) v)) = len"
    using assms(2) by (auto simp: min_def)
  moreover from this have "unat (word_of_nat len :: u16) = len"
    by (intro unat_of_nat_u16) simp
  moreover have "unat (word_of_nat (length v) :: u16) = length v"
    using assms(2) by (intro unat_of_nat_u16) simp
  moreover have "copy_value v offset null buf_size =
      (if length v < unat offset then (0xfe07, [])
       else if null then (word_of_nat (length v), [])
       else (word_of_nat len, take len (drop (unat offset) v)))"
    by (simp add: copy_value_def Let_def len_def)
  ultimately show ?thesis
    using assms by (auto simp del: length_take split: if_splits)
qed

section \<open>The server as a provider of long reads\<close>

definition blob_copy ::
  "bool \<Rightarrow> u16 \<Rightarrow> u16 \<Rightarrow> 'w \<times> 'w state option \<Rightarrow> nat \<Rightarrow> nat \<Rightarrow> ('w \<times> 'w state option) \<times> bytes" where
  "blob_copy oc connection attribute x pos n =
     (case att_read oc (fst x) (snd x) connection attribute (word_of_nat pos) False (word_of_nat n) of
        (app', st', code, bs) \<Rightarrow> ((app', st'), bs))"

definition blob_held ::
  "bool \<Rightarrow> u16 \<Rightarrow> u16 \<Rightarrow> 'w \<Rightarrow> 'w state \<Rightarrow> 'w \<times> 'w state option \<Rightarrow> bytes \<Rightarrow> bool" where
  "blob_held oc connection attribute app s x v \<longleftrightarrow>
     x = (app, Some s) \<and> snapshot oc connection attribute s v"

interpretation att_blob: long_read
  "blob_copy oc connection attribute" "blob_held oc connection attribute app s"
  for oc connection attribute app s
proof
  fix x and v :: bytes and pos n :: nat
  assume held: "blob_held oc connection attribute app s x v"
    and pos: "pos \<le> length v" and n: "n < 65536"
  from held have "length v \<le> 512" by (simp add: blob_held_def snapshot_def)
  with pos n have "copy_value v (word_of_nat pos) False (word_of_nat n) =
      (word_of_nat (min (length v - pos) n), take n (drop pos v))"
    by (simp add: copy_value_def unat_of_nat_u16 min_def)
  with held show "\<exists>x'. blob_copy oc connection attribute x pos n = (x', take n (drop pos v))
      \<and> blob_held oc connection attribute app s x' v"
    by (auto simp: blob_copy_def blob_held_def read_snapshot)
qed

end
