(* ===== verification/Bridge.thy ===== *)
theory Bridge
  imports Gatt "HOL-Library.Numeral_Type"
begin

text \<open>
  btstack-sys/c/bridge.c, the C shim between BTstack and the Rust callbacks, and the interface to
  BTstack itself. BTstack is a submodule that is not in the repository: it is a parameter. The shim's
  calls into it are the constructors of \<open>stack_call\<close>, and the event codes and packet accessors of its
  headers are fields of \<open>btstack\<close>. What a call does is a \<open>c_prog\<close>: a finite tree of callbacks into
  the shim and the Rust code, each continuing on the callback's result, that ends in a new stack
  state and a return value. The shim's own state is the table of sixteen send requests and the
  advertising flag and buffer.
\<close>

section \<open>The interface to BTstack\<close>

text \<open>Indices into the table of sixteen send requests; a callback's context is such an index.\<close>

type_synonym slot = "4 word"

datatype stack_call =
    Memory_Init | Run_Loop_Init | Hci_Init | L2cap_Init | Le_Device_Db_Init | Sm_Init
  | Sm_Set_Io_Capabilities | Sm_Set_Authentication_Requirements | Hci_Add_Event_Handler
  | Att_Db_Util_Init
  | Add_Service_Uuid128 uuid
  | Add_Characteristic_Uuid128 uuid u16
  | Add_Service_Uuid16 u16
  | Add_Characteristic_Uuid16 u16 bytes
  | Att_Server_Init | Att_Server_Register_Packet_Handler
  | Gap_Advertisements_Set_Params
  | Gap_Advertisements_Set_Data u8 bytes
  | Gap_Advertisements_Enable bool
  | Hci_Power_Control bool
  | Transport_Packet u8 bytes
  | Run_Loop_Execute_Once
  | Request_To_Send_Notification slot u16
  | Att_Server_Notify u16 u16 bytes
  | Att_Server_Deinit | Sm_Deinit | L2cap_Deinit | Hci_Deinit | Run_Loop_Deinit | Memory_Deinit

text \<open>
  \<open>C_Att_Read\<close> and \<open>C_Att_Write\<close> call the Rust callbacks directly, \<open>C_Send_Packet\<close> the transport's
  \<open>send_packet\<close>, \<open>C_Event\<close> the shim's event handler (packet type, packet, size, and what
  \<open>att_server_get_mtu\<close> returns meanwhile), \<open>C_Can_Send\<close> the registered can-send callback.
\<close>

datatype 'b c_prog =
    C_Return 'b i32
  | C_Att_Read u16 u16 u16 bool u16 "u16 \<times> bytes \<Rightarrow> 'b c_prog"
  | C_Att_Write u16 u16 u16 u16 bytes u16 "i32 \<Rightarrow> 'b c_prog"
  | C_Send_Packet u8 bytes "i32 \<Rightarrow> 'b c_prog"
  | C_Event u8 bytes u16 u16 "'b c_prog"
  | C_Can_Send slot "'b c_prog"

record 'b btstack =
  bt_call :: "stack_call \<Rightarrow> 'b \<Rightarrow> 'b c_prog"
  bt_is_off :: "'b \<Rightarrow> bool"
  ATT_PROPERTY_DYNAMIC :: u16
  HCI_EVENT_PACKET :: u8
  BTSTACK_EVENT_STATE :: u8
  HCI_EVENT_COMMAND_COMPLETE :: u8
  HCI_EVENT_DISCONNECTION_COMPLETE :: u8
  ATT_EVENT_CONNECTED :: u8
  ATT_EVENT_MTU_EXCHANGE_COMPLETE :: u8
  state_event_is_working :: "bytes \<Rightarrow> bool"
  little_endian_read_16 :: "bytes \<Rightarrow> nat \<Rightarrow> u16"
  disconnection_get_handle :: "bytes \<Rightarrow> u16"
  connected_get_handle :: "bytes \<Rightarrow> u16"
  mtu_get_handle :: "bytes \<Rightarrow> u16"
  mtu_get_MTU :: "bytes \<Rightarrow> u16"

section \<open>The shim's state\<close>

record send_request =
  sr_handle :: u16
  busy :: bool

record bridge =
  send_requests :: "send_request list"
  advertising_requested :: bool
  advertising :: bytes

text \<open>\<^verbatim>\<open>rs_init\<close> clears the flag and the table; the static buffer of 31 bytes keeps its contents.\<close>

definition bridge_init :: "bridge \<Rightarrow> bridge" where
  "bridge_init b =
     b\<lparr>advertising_requested := False,
       send_requests := replicate 16 \<lparr>sr_handle = 0, busy = False\<rparr>\<rparr>"

type_synonym bridge_event = "u8 \<times> u16 \<times> u16"

section \<open>Callbacks from BTstack\<close>

text \<open>The Rust callback \<^verbatim>\<open>event\<close> appends to the queue the run loop drains.\<close>

definition rust_event :: "u8 \<Rightarrow> u16 \<Rightarrow> u16 \<Rightarrow> bridge_event list \<Rightarrow> bridge_event list" where
  "rust_event kind h v q = q @ [(kind, h, v)]"

definition release_handle :: "u16 \<Rightarrow> send_request list \<Rightarrow> send_request list" where
  "release_handle h rs = map (\<lambda>r. if sr_handle r = h then r\<lparr>busy := False\<rparr> else r) rs"

definition command_complete ::
  "'b btstack \<Rightarrow> bytes \<Rightarrow> u16 \<Rightarrow> bridge \<Rightarrow> bridge_event list \<Rightarrow> bridge_event list" where
  "command_complete bt packet sz b q =
     (if 6 \<le> sz
      then let opcode = little_endian_read_16 bt packet 3;
               status = ucast (packet ! 5);
               q1 = (if opcode = 0x200a \<and> advertising_requested b then rust_event 2 0 status q else q)
           in if packet ! 5 \<noteq> 0 then rust_event 6 opcode status q1 else q1
      else q)"

definition event_handler ::
  "'b btstack \<Rightarrow> u8 \<Rightarrow> bytes \<Rightarrow> u16 \<Rightarrow> u16 \<Rightarrow> bridge \<times> bridge_event list
     \<Rightarrow> bridge \<times> bridge_event list" where
  "event_handler bt type packet sz current_mtu x =
     (case x of (b, q) \<Rightarrow>
        if type \<noteq> HCI_EVENT_PACKET bt \<or> sz < 2 then (b, q)
        else if packet ! 0 = BTSTACK_EVENT_STATE bt then
          (b, if state_event_is_working bt packet then rust_event 1 0 0 q else q)
        else if packet ! 0 = HCI_EVENT_COMMAND_COMPLETE bt then
          (b, command_complete bt packet sz b q)
        else if packet ! 0 = HCI_EVENT_DISCONNECTION_COMPLETE bt then
          (let h = disconnection_get_handle bt packet
           in (b\<lparr>send_requests := release_handle h (send_requests b)\<rparr>, rust_event 4 h 0 q))
        else if packet ! 0 = ATT_EVENT_CONNECTED bt then
          (b, rust_event 3 (connected_get_handle bt packet) current_mtu q)
        else if packet ! 0 = ATT_EVENT_MTU_EXCHANGE_COMPLETE bt then
          (b, rust_event 7 (mtu_get_handle bt packet) (mtu_get_MTU bt packet) q)
        else (b, q))"

definition set_busy :: "slot \<Rightarrow> bool \<Rightarrow> bridge \<Rightarrow> bridge" where
  "set_busy i v b =
     b\<lparr>send_requests := (send_requests b)[unat i := (send_requests b ! unat i)\<lparr>busy := v\<rparr>]\<rparr>"

definition can_send :: "slot \<Rightarrow> bridge \<times> bridge_event list \<Rightarrow> bridge \<times> bridge_event list" where
  "can_send i x =
     (case x of (b, q) \<Rightarrow>
        (set_busy i False b, rust_event 5 (sr_handle (send_requests b ! unat i)) 0 q))"

section \<open>The table of send requests\<close>

text \<open>The two searches of \<^verbatim>\<open>rs_request_send\<close>: a busy request of the connection, a free slot.\<close>

definition requested :: "u16 \<Rightarrow> bridge \<Rightarrow> bool" where
  "requested h b \<longleftrightarrow> list_ex (\<lambda>r. busy r \<and> sr_handle r = h) (send_requests b)"

definition free_slot :: "bridge \<Rightarrow> slot option" where
  "free_slot b = map_option word_of_nat (position (\<lambda>r. \<not> busy r) (send_requests b))"

definition claim_slot :: "slot \<Rightarrow> u16 \<Rightarrow> bridge \<Rightarrow> bridge" where
  "claim_slot i h b =
     b\<lparr>send_requests := (send_requests b)[unat i := \<lparr>sr_handle = h, busy = True\<rparr>]\<rparr>"

text \<open>The handles with a request outstanding, in slot order.\<close>

definition busy_handles :: "bridge \<Rightarrow> u16 list" where
  "busy_handles b = map sr_handle (filter busy (send_requests b))"

text \<open>Sixteen slots, and at most one request outstanding per connection.\<close>

definition bridge_ok :: "bridge \<Rightarrow> bool" where
  "bridge_ok b \<longleftrightarrow> length (send_requests b) = 16 \<and> distinct (busy_handles b)"

lemma position_SomeD:
  "position P xs = Some i \<Longrightarrow> i < length xs \<and> P (xs ! i) \<and> (\<forall>j < i. \<not> P (xs ! j))"
proof (induction P xs arbitrary: i rule: position.induct)
  case (2 P x xs)
  then show ?case by (auto simp: less_Suc_eq_0_disj split: if_splits)
qed simp

lemma position_None_iff: "position P xs = None \<longleftrightarrow> (\<forall>x \<in> set xs. \<not> P x)"
  by (induction P xs rule: position.induct) auto

lemma requested_iff: "requested h b \<longleftrightarrow> h \<in> set (busy_handles b)"
  by (auto simp: requested_def busy_handles_def list_ex_iff)

lemma free_slot_SomeD:
  assumes "length (send_requests b) = 16" and "free_slot b = Some i"
  shows "unat i < 16 \<and> \<not> busy (send_requests b ! unat i)"
proof -
  from assms(2) obtain n where n: "position (\<lambda>r. \<not> busy r) (send_requests b) = Some n"
    and i: "i = word_of_nat n" by (auto simp: free_slot_def)
  from position_SomeD [OF n] assms(1) have "n < 16" "\<not> busy (send_requests b ! n)" by auto
  moreover from this have "unat i = n" by (simp add: i unsigned_of_nat take_bit_nat_eq_self)
  ultimately show ?thesis by simp
qed

lemma free_slot_None_iff:
  "free_slot b = None \<longleftrightarrow> (\<forall>r \<in> set (send_requests b). busy r)"
  by (auto simp: free_slot_def position_None_iff)

text \<open>One slot changed: the handles outstanding before it, at it, and after it.\<close>

lemma busy_handles_split:
  assumes "i < length rs"
  shows "map sr_handle (filter busy (rs[i := r])) =
    map sr_handle (filter busy (take i rs)) @ (if busy r then [sr_handle r] else [])
      @ map sr_handle (filter busy (drop (Suc i) rs))"
  using assms by (simp add: upd_conv_take_nth_drop)

lemma busy_handles_nth:
  assumes "i < length rs"
  shows "map sr_handle (filter busy rs) =
    map sr_handle (filter busy (take i rs)) @ (if busy (rs ! i) then [sr_handle (rs ! i)] else [])
      @ map sr_handle (filter busy (drop (Suc i) rs))"
  using busy_handles_split [OF assms, of "rs ! i"] by simp

lemma bridge_ok_init [inv_intros]: "bridge_ok (bridge_init b)"
  by (simp add: bridge_ok_def bridge_init_def busy_handles_def)

lemma busy_handles_release:
  "busy_handles (b\<lparr>send_requests := release_handle h (send_requests b)\<rparr>) =
     filter (\<lambda>x. x \<noteq> h) (busy_handles b)"
proof -
  have "map sr_handle (filter busy (release_handle h rs)) =
      filter (\<lambda>x. x \<noteq> h) (map sr_handle (filter busy rs))" for rs
    by (induction rs) (auto simp: release_handle_def)
  then show ?thesis by (simp add: busy_handles_def)
qed

lemma bridge_ok_release [inv_intros]:
  "bridge_ok b \<Longrightarrow> bridge_ok (b\<lparr>send_requests := release_handle h (send_requests b)\<rparr>)"
  by (simp add: bridge_ok_def busy_handles_release) (simp add: release_handle_def)

lemma bridge_ok_set_busy_False [inv_intros]:
  assumes "bridge_ok b"
  shows "bridge_ok (set_busy i False b)"
proof (cases "unat i < length (send_requests b)")
  case True
  with assms show ?thesis
    using busy_handles_nth [OF True]
    by (auto simp: bridge_ok_def set_busy_def busy_handles_def busy_handles_split split: if_splits)
next
  case False
  with assms show ?thesis by (simp add: set_busy_def list_update_beyond)
qed

lemma bridge_ok_claim [inv_intros]:
  assumes "bridge_ok b" and "free_slot b = Some i" and "\<not> requested h b"
  shows "bridge_ok (claim_slot i h b)"
proof -
  have len: "length (send_requests b) = 16" using assms(1) by (simp add: bridge_ok_def)
  with free_slot_SomeD [OF len assms(2)] have i: "unat i < length (send_requests b)"
    "\<not> busy (send_requests b ! unat i)" by auto
  from assms(1,3) busy_handles_nth [OF i(1)] i(2) show ?thesis
    by (auto simp: bridge_ok_def claim_slot_def busy_handles_def busy_handles_split [OF i(1)]
        requested_iff)
qed

lemma bridge_ok_event_handler [inv_intros]:
  "bridge_ok b \<Longrightarrow> bridge_ok (fst (event_handler bt type packet sz m (b, q)))"
  by (auto simp: event_handler_def Let_def intro: inv_intros)

lemma bridge_ok_can_send [inv_intros]:
  "bridge_ok b \<Longrightarrow> bridge_ok (fst (can_send i (b, q)))"
  by (auto simp: can_send_def intro: inv_intros)

text \<open>Sixteen connections always find a slot.\<close>

lemma free_slot_exists:
  assumes "bridge_ok b" and "\<not> requested h b" and "set (busy_handles b) \<subseteq> H" and "h \<in> H"
    and "finite H" and "card H \<le> 16"
  shows "free_slot b \<noteq> None"
proof
  assume "free_slot b = None"
  then have "filter busy (send_requests b) = send_requests b" by (simp add: free_slot_None_iff)
  with assms(1) have "length (busy_handles b) = 16" "distinct (busy_handles b)"
    by (simp_all add: bridge_ok_def busy_handles_def)
  then have "card (set (busy_handles b)) = 16" by (simp add: distinct_card)
  moreover have "insert h (set (busy_handles b)) \<subseteq> H" "h \<notin> set (busy_handles b)"
    using assms(2-4) by (simp_all add: requested_iff)
  ultimately have "17 \<le> card H"
    using card_mono [OF assms(5), of "insert h (set (busy_handles b))"] by simp
  with assms(6) show False by simp
qed

text \<open>Events are only appended, never lost or reordered.\<close>

lemma event_handler_appends: "\<exists>new. snd (event_handler bt type packet sz m (b, q)) = q @ new"
  by (auto simp: event_handler_def command_complete_def rust_event_def Let_def)

lemma can_send_appends: "\<exists>new. snd (can_send i (b, q)) = q @ new"
  by (auto simp: can_send_def rust_event_def)

end
