(* ===== verification/Hci.thy ===== *)
theory Hci
  imports Prelude
begin

text \<open>
  The HCI boundary: \<^verbatim>\<open>HciPacket\<close> and the trait \<^verbatim>\<open>HciTransport\<close> of btstack-core/src/lib.rs and
  the framing check \<^verbatim>\<open>validate_packet\<close> of btstack-core/src/runtime.rs. A transport is any
  implementation of the trait: its two methods over a state of its own (\<open>'t\<close>), each returning a
  result or panicking. The reference for the check is the packet layout of the HCI specification,
  \<open>event_packet\<close> and \<open>acl_packet\<close>.
\<close>

record hci_packet =
  pkt_kind :: u8
  pkt_data :: bytes

text \<open>The second argument of \<open>t_receive\<close> is the timeout in milliseconds.\<close>

record 't hci_transport =
  t_send :: "'t \<Rightarrow> u8 \<Rightarrow> bytes \<Rightarrow> 't \<times> (error + unit) outcome"
  t_receive :: "'t \<Rightarrow> nat \<Rightarrow> 't \<times> (error + hci_packet option) outcome"

definition u16_from_le_bytes :: "u8 \<Rightarrow> u8 \<Rightarrow> u16" where
  "u16_from_le_bytes lo hi = word_of_nat (unat lo + 256 * unat hi)"

definition u16_to_le_bytes :: "u16 \<Rightarrow> bytes" where
  "u16_to_le_bytes w = [word_of_nat (unat w mod 256), word_of_nat (unat w div 256)]"

definition expected_length :: "hci_packet \<Rightarrow> error + nat" where
  "expected_length p =
     (if pkt_kind p = 4 \<and> 2 \<le> length (pkt_data p) then Inr (2 + unat (pkt_data p ! 1))
      else if pkt_kind p = 2 \<and> 4 \<le> length (pkt_data p)
      then Inr (4 + unat (u16_from_le_bytes (pkt_data p ! 2) (pkt_data p ! 3)))
      else Inl Invalid_Header)"

definition validate_packet :: "hci_packet \<Rightarrow> error + unit" where
  "validate_packet p =
     (case expected_length p of
        Inl e \<Rightarrow> Inl e
      | Inr expected \<Rightarrow>
          if length (pkt_data p) \<noteq> expected \<or> (pkt_kind p = 2 \<and> 1028 < expected)
          then Inl Invalid_Length
          else Inr ())"

section \<open>Reference: HCI packets\<close>

definition event_packet :: "u8 \<Rightarrow> bytes \<Rightarrow> hci_packet" where
  "event_packet code params =
     \<lparr>pkt_kind = 4, pkt_data = code # word_of_nat (length params) # params\<rparr>"

definition acl_packet :: "u8 \<Rightarrow> u8 \<Rightarrow> bytes \<Rightarrow> hci_packet" where
  "acl_packet h0 h1 payload =
     \<lparr>pkt_kind = 2, pkt_data = h0 # h1 # u16_to_le_bytes (word_of_nat (length payload)) @ payload\<rparr>"

lemma unat_u16_from_le_bytes: "unat (u16_from_le_bytes lo hi) = unat lo + 256 * unat hi"
  unfolding u16_from_le_bytes_def
  using unat_u8_bound [of lo] unat_u8_bound [of hi] by (intro unat_of_nat_u16) simp

lemma u16_le_roundtrip:
  "u16_to_le_bytes (u16_from_le_bytes lo hi) = [lo, hi]"
  using unat_u8_bound [of lo] by (simp add: u16_to_le_bytes_def unat_u16_from_le_bytes)

lemma u16_from_to_le_bytes:
  "u16_to_le_bytes w = [lo, hi] \<Longrightarrow> u16_from_le_bytes lo hi = w"
proof -
  assume "u16_to_le_bytes w = [lo, hi]"
  then have "unat lo = unat w mod 256" and "unat hi = unat w div 256"
    using unat_u16_bound [of w] by (auto simp: u16_to_le_bytes_def unat_of_nat_u8)
  then have "unat (u16_from_le_bytes lo hi) = unat w"
    by (simp add: unat_u16_from_le_bytes)
  then show ?thesis by (rule word_unat_eq_iff [THEN iffD2])
qed

lemma validate_event_iff:
  "pkt_kind p = 4 \<Longrightarrow> validate_packet p = Inr () \<longleftrightarrow>
     (\<exists>code params. p = event_packet code params \<and> length params \<le> 255)"
  (is "_ \<Longrightarrow> ?L \<longleftrightarrow> ?R")
proof
  assume kind: "pkt_kind p = 4" and ok: ?L
  then obtain code n params where data: "pkt_data p = code # n # params" and len: "length params = unat n"
    by (cases "pkt_data p"; cases "tl (pkt_data p)")
      (auto simp: validate_packet_def expected_length_def split: if_splits)
  have "p = event_packet code params"
    using kind data len by (cases p) (simp add: event_packet_def)
  then show ?R using len unat_u8_bound [of n] by force
next
  assume ?R
  then obtain code params where p: "p = event_packet code params" and len: "length params \<le> 255"
    by blast
  from len have "unat (word_of_nat (length params) :: u8) = length params"
    by (intro unat_of_nat_u8) simp
  then show ?L
    by (simp add: p event_packet_def validate_packet_def expected_length_def)
qed

lemma validate_acl_iff:
  "pkt_kind p = 2 \<Longrightarrow> validate_packet p = Inr () \<longleftrightarrow>
     (\<exists>h0 h1 payload. p = acl_packet h0 h1 payload \<and> length payload \<le> 1024)"
  (is "_ \<Longrightarrow> ?L \<longleftrightarrow> ?R")
proof
  assume kind: "pkt_kind p = 2" and ok: ?L
  then have "4 \<le> length (pkt_data p)"
    by (auto simp: validate_packet_def expected_length_def split: if_splits)
  then obtain h0 h1 lo hi payload where data: "pkt_data p = h0 # h1 # lo # hi # payload"
    by (auto simp: Suc_le_length_iff numeral_eq_Suc)
  with kind ok have len: "length payload = unat (u16_from_le_bytes lo hi)" "length payload \<le> 1024"
    by (auto simp: validate_packet_def expected_length_def split: if_splits)
  have "p = acl_packet h0 h1 payload"
    using kind data len by (cases p) (simp add: acl_packet_def u16_le_roundtrip)
  with len show ?R by blast
next
  assume ?R
  then obtain h0 h1 payload where p: "p = acl_packet h0 h1 payload" and len: "length payload \<le> 1024"
    by blast
  obtain lo hi where le: "u16_to_le_bytes (word_of_nat (length payload)) = [lo, hi]"
    by (simp add: u16_to_le_bytes_def)
  have "unat (u16_from_le_bytes lo hi) = length payload"
    using len by (simp add: u16_from_to_le_bytes [OF le] unat_of_nat_u16)
  then show ?L
    using len by (simp add: p acl_packet_def le validate_packet_def expected_length_def)
qed

section \<open>Properties\<close>

text \<open>
  The framing check passes exactly the well-formed packets a peripheral receives: an event with
  its parameter length in the second byte, or ACL data with its little-endian length in the third
  and fourth and at most 1024 bytes of payload. Every other kind and every wrong length is refused.
\<close>

theorem validate_packet_iff:
  "validate_packet p = Inr () \<longleftrightarrow>
     (\<exists>code params. p = event_packet code params \<and> length params \<le> 255)
     \<or> (\<exists>h0 h1 payload. p = acl_packet h0 h1 payload \<and> length payload \<le> 1024)"
proof (cases "pkt_kind p = 4 \<or> pkt_kind p = 2")
  case True
  then show ?thesis
    by (elim disjE) (auto simp: validate_event_iff validate_acl_iff event_packet_def acl_packet_def)
next
  case False
  then show ?thesis
    by (auto simp: validate_packet_def expected_length_def event_packet_def acl_packet_def)
qed

text \<open>
  A packet that passes is at most 1028 bytes long, so \<^verbatim>\<open>packet.data.len() as u16\<close>, the length
  handed to the C stack, is the length of the packet.
\<close>

theorem validate_packet_length:
  assumes "validate_packet p = Inr ()"
  shows "length (pkt_data p) \<le> 1028
    \<and> unat (word_of_nat (length (pkt_data p)) :: u16) = length (pkt_data p)"
proof -
  have "length (pkt_data p) \<le> 1028"
    using assms unat_u8_bound [of "pkt_data p ! 1"]
    by (auto simp: validate_packet_def expected_length_def split: if_splits)
  then show ?thesis by (simp add: unat_of_nat_u16)
qed

theorem validate_packet_length_witness:
  "length (pkt_data (event_packet 14 [4, 1, 3])) \<le> 1028
    \<and> unat (word_of_nat (length (pkt_data (event_packet 14 [4, 1, 3]))) :: u16)
        = length (pkt_data (event_packet 14 [4, 1, 3]))"
  by (rule validate_packet_length) (simp add: event_packet_def validate_packet_def expected_length_def)

end
