(* ===== verification/World.thy ===== *)
theory World
  imports Att_Callbacks Bridge Hci
begin

text \<open>
  The stack thread: its thread-local variables (TRANSPORT, STATE, EVENTS, FAILURE of
  btstack-core/src/runtime.rs), the process-wide NEXT_CONNECTION, the shim's and BTstack's state and
  the application's. \<open>run_c\<close> runs a call into C with every callback it makes, and the \<open>rs_\<close>
  functions are the C ABI of btstack-sys/src/lib.rs as bridge.c implements it. The locale
  \<open>callback_invariant\<close> is the contract that carries an invariant through any C code: what every
  callback keeps, every call keeps.
\<close>

record ('t, 'b, 'w) world =
  transport :: "'t option"
  server :: "'w state option"
  event_queue :: "bridge_event list"
  failure :: "error option"
  next_connection :: u64
  shim :: bridge
  stack :: 'b
  app :: 'w

record ('t, 'b) env =
  env_transport :: "'t hci_transport"
  env_btstack :: "'b btstack"
  overflow_checks :: bool

section \<open>The callbacks\<close>

definition do_att_read ::
  "('t, 'b) env \<Rightarrow> u16 \<Rightarrow> u16 \<Rightarrow> u16 \<Rightarrow> bool \<Rightarrow> u16 \<Rightarrow> ('t, 'b, 'w) world
     \<Rightarrow> ('t, 'b, 'w) world \<times> u16 \<times> bytes" where
  "do_att_read env connection attribute offset null n w =
     (case att_read (overflow_checks env) (app w) (server w) connection attribute offset null n of
        (app', st', r) \<Rightarrow> (w\<lparr>app := app', server := st'\<rparr>, r))"

definition do_att_write ::
  "('t, 'b) env \<Rightarrow> u16 \<Rightarrow> u16 \<Rightarrow> u16 \<Rightarrow> u16 \<Rightarrow> bytes \<Rightarrow> u16 \<Rightarrow> ('t, 'b, 'w) world
     \<Rightarrow> ('t, 'b, 'w) world \<times> i32" where
  "do_att_write env connection attribute mode offset bs n w =
     (case att_write (overflow_checks env) (app w) (server w) connection attribute mode offset bs n of
        (app', st', r) \<Rightarrow> (w\<lparr>app := app', server := st'\<rparr>, r))"

text \<open>
  The Rust callback \<^verbatim>\<open>send\<close>, reached through \<^verbatim>\<open>send_packet\<close>, whose \<^verbatim>\<open>(uint16_t)size\<close>
  keeps the low sixteen bits of the length: a failure or a panic of the transport is stored in
  FAILURE and reported to C as -1.
\<close>

definition transport_send ::
  "('t, 'b) env \<Rightarrow> u8 \<Rightarrow> bytes \<Rightarrow> ('t, 'b, 'w) world \<Rightarrow> ('t, 'b, 'w) world \<times> i32" where
  "transport_send env kind packet w =
     (case transport w of
        None \<Rightarrow> (w\<lparr>failure := Some Transport_Panicked\<rparr>, - 1)
      | Some t \<Rightarrow>
          (case t_send (env_transport env) t kind packet of
             (t', Returned (Inr _)) \<Rightarrow> (w\<lparr>transport := Some t'\<rparr>, 0)
           | (t', Returned (Inl e)) \<Rightarrow> (w\<lparr>transport := Some t', failure := Some e\<rparr>, - 1)
           | (t', Panicked) \<Rightarrow>
               (w\<lparr>transport := Some t', failure := Some Transport_Panicked\<rparr>, - 1)))"

definition send_packet ::
  "('t, 'b) env \<Rightarrow> u8 \<Rightarrow> bytes \<Rightarrow> ('t, 'b, 'w) world \<Rightarrow> ('t, 'b, 'w) world \<times> i32" where
  "send_packet env kind packet = transport_send env kind (take (length packet mod 65536) packet)"

definition do_event ::
  "('t, 'b) env \<Rightarrow> u8 \<Rightarrow> bytes \<Rightarrow> u16 \<Rightarrow> u16 \<Rightarrow> ('t, 'b, 'w) world \<Rightarrow> ('t, 'b, 'w) world" where
  "do_event env type packet sz m w =
     (case event_handler (env_btstack env) type packet sz m (shim w, event_queue w) of
        (b, q) \<Rightarrow> w\<lparr>shim := b, event_queue := q\<rparr>)"

definition do_can_send :: "slot \<Rightarrow> ('t, 'b, 'w) world \<Rightarrow> ('t, 'b, 'w) world" where
  "do_can_send i w =
     (case can_send i (shim w, event_queue w) of (b, q) \<Rightarrow> w\<lparr>shim := b, event_queue := q\<rparr>)"

section \<open>Running C code\<close>

primrec run_c ::
  "('t, 'b) env \<Rightarrow> 'b c_prog \<Rightarrow> ('t, 'b, 'w) world \<Rightarrow> ('t, 'b, 'w) world \<times> i32" where
  "run_c env (C_Return b r) w = (w\<lparr>stack := b\<rparr>, r)"
| "run_c env (C_Att_Read c a off null n k) w =
     (case do_att_read env c a off null n w of (w', out) \<Rightarrow> run_c env (k out) w')"
| "run_c env (C_Att_Write c a mode off bs n k) w =
     (case do_att_write env c a mode off bs n w of (w', r) \<Rightarrow> run_c env (k r) w')"
| "run_c env (C_Send_Packet kind packet k) w =
     (case send_packet env kind packet w of (w', r) \<Rightarrow> run_c env (k r) w')"
| "run_c env (C_Event type packet sz m p) w = run_c env p (do_event env type packet sz m w)"
| "run_c env (C_Can_Send i p) w = run_c env p (do_can_send i w)"

definition call_c ::
  "('t, 'b) env \<Rightarrow> stack_call \<Rightarrow> ('t, 'b, 'w) world \<Rightarrow> ('t, 'b, 'w) world \<times> i32" where
  "call_c env c w = run_c env (bt_call (env_btstack env) c (stack w)) w"

section \<open>The C ABI\<close>

definition call_all ::
  "('t, 'b) env \<Rightarrow> stack_call list \<Rightarrow> ('t, 'b, 'w) world \<Rightarrow> ('t, 'b, 'w) world" where
  "call_all env cs w = fold (\<lambda>c v. fst (call_c env c v)) cs w"

definition rs_init :: "('t, 'b) env \<Rightarrow> ('t, 'b, 'w) world \<Rightarrow> ('t, 'b, 'w) world" where
  "rs_init env w =
     call_all env
       [Memory_Init, Run_Loop_Init, Hci_Init, L2cap_Init, Le_Device_Db_Init, Sm_Init,
        Sm_Set_Io_Capabilities, Sm_Set_Authentication_Requirements, Hci_Add_Event_Handler,
        Att_Db_Util_Init]
       (w\<lparr>shim := bridge_init (shim w)\<rparr>)"

definition rs_service :: "('t, 'b) env \<Rightarrow> uuid \<Rightarrow> ('t, 'b, 'w) world \<Rightarrow> ('t, 'b, 'w) world" where
  "rs_service env u w = fst (call_c env (Add_Service_Uuid128 u) w)"

definition rs_characteristic ::
  "('t, 'b) env \<Rightarrow> uuid \<Rightarrow> u16 \<Rightarrow> ('t, 'b, 'w) world \<Rightarrow> ('t, 'b, 'w) world \<times> u16" where
  "rs_characteristic env u props w =
     (case call_c env (Add_Characteristic_Uuid128 u (props OR ATT_PROPERTY_DYNAMIC (env_btstack env))) w of
        (w', r) \<Rightarrow> (w', ucast r))"

definition rs_gap_name :: "('t, 'b) env \<Rightarrow> bytes \<Rightarrow> ('t, 'b, 'w) world \<Rightarrow> ('t, 'b, 'w) world" where
  "rs_gap_name env name w =
     call_all env
       [Add_Service_Uuid16 0x1800, Add_Characteristic_Uuid16 0x2a00 name, Add_Service_Uuid16 0x1801] w"

text \<open>\<^verbatim>\<open>memcpy(advertising, adv, len)\<close> into the 31-byte buffer.\<close>

definition copy_advertising :: "bytes \<Rightarrow> bridge \<Rightarrow> bridge" where
  "copy_advertising adv b = b\<lparr>advertising := adv @ drop (length adv) (advertising b)\<rparr>"

definition rs_start ::
  "('t, 'b) env \<Rightarrow> bytes \<Rightarrow> ('t, 'b, 'w) world \<Rightarrow> ('t, 'b, 'w) world \<times> i32" where
  "rs_start env adv w =
     (let w1 = call_all env [Att_Server_Init, Att_Server_Register_Packet_Handler] w;
          w2 = w1\<lparr>shim := copy_advertising adv (shim w1)\<rparr>;
          w3 = call_all env
                 [Gap_Advertisements_Set_Params,
                  Gap_Advertisements_Set_Data (word_of_nat (length adv)) (advertising (shim w2))] w2;
          w4 = w3\<lparr>shim := (shim w3)\<lparr>advertising_requested := True\<rparr>\<rparr>;
          w5 = call_all env [Gap_Advertisements_Enable True] w4
      in call_c env (Hci_Power_Control True) w5)"

definition rs_receive ::
  "('t, 'b) env \<Rightarrow> hci_packet \<Rightarrow> ('t, 'b, 'w) world \<Rightarrow> ('t, 'b, 'w) world" where
  "rs_receive env p w = fst (call_c env (Transport_Packet (pkt_kind p) (pkt_data p)) w)"

definition rs_poll :: "('t, 'b) env \<Rightarrow> ('t, 'b, 'w) world \<Rightarrow> ('t, 'b, 'w) world" where
  "rs_poll env w = fst (call_c env Run_Loop_Execute_Once w)"

definition rs_request_send :: "('t, 'b) env \<Rightarrow> u16 \<Rightarrow> ('t, 'b, 'w) world \<Rightarrow> ('t, 'b, 'w) world" where
  "rs_request_send env connection w =
     (if requested connection (shim w) then w
      else case free_slot (shim w) of
             None \<Rightarrow> w
           | Some i \<Rightarrow>
               (case call_c env (Request_To_Send_Notification i connection)
                       (w\<lparr>shim := claim_slot i connection (shim w)\<rparr>) of
                  (w', status) \<Rightarrow>
                    if status \<noteq> 0 then w'\<lparr>shim := set_busy i False (shim w')\<rparr> else w'))"

definition rs_notify ::
  "('t, 'b) env \<Rightarrow> u16 \<Rightarrow> u16 \<Rightarrow> bytes \<Rightarrow> ('t, 'b, 'w) world \<Rightarrow> ('t, 'b, 'w) world \<times> u8" where
  "rs_notify env connection attribute bs w =
     (case call_c env (Att_Server_Notify connection attribute bs) w of (w', r) \<Rightarrow> (w', ucast r))"

definition rs_stop :: "('t, 'b) env \<Rightarrow> ('t, 'b, 'w) world \<Rightarrow> ('t, 'b, 'w) world" where
  "rs_stop env w =
     fst (call_c env (Hci_Power_Control False) (w\<lparr>shim := (shim w)\<lparr>advertising_requested := False\<rparr>\<rparr>))"

definition rs_is_off :: "('t, 'b) env \<Rightarrow> ('t, 'b, 'w) world \<Rightarrow> bool" where
  "rs_is_off env w = bt_is_off (env_btstack env) (stack w)"

definition rs_deinit :: "('t, 'b) env \<Rightarrow> ('t, 'b, 'w) world \<Rightarrow> ('t, 'b, 'w) world" where
  "rs_deinit env w =
     call_all env [Att_Server_Deinit, Sm_Deinit, L2cap_Deinit, Hci_Deinit, Run_Loop_Deinit, Memory_Deinit] w"

section \<open>The contract: what every callback keeps, every call keeps\<close>

text \<open>The packets a C program can hand to the shim's event handler, whatever its callbacks answer.\<close>

primrec emits_only :: "(u8 \<Rightarrow> bytes \<Rightarrow> u16 \<Rightarrow> bool) \<Rightarrow> 'b c_prog \<Rightarrow> bool" where
  "emits_only P (C_Return b r) = True"
| "emits_only P (C_Att_Read c a off null n k) = (\<forall>out. emits_only P (k out))"
| "emits_only P (C_Att_Write c a mode off bs n k) = (\<forall>r. emits_only P (k r))"
| "emits_only P (C_Send_Packet kind packet k) = (\<forall>r. emits_only P (k r))"
| "emits_only P (C_Event type packet sz m p) = (P type packet sz \<and> emits_only P p)"
| "emits_only P (C_Can_Send i p) = emits_only P p"

lemma emits_only_True [simp]: "emits_only (\<lambda>_ _ _. True) p"
  by (induction p) simp_all

text \<open>
  The contract is stated over the packets BTstack may report; \<open>\<lambda>_ _ _. True\<close> asks nothing of it.
\<close>

locale callback_invariant =
  fixes env :: "('t, 'b) env" and allowed :: "u8 \<Rightarrow> bytes \<Rightarrow> u16 \<Rightarrow> bool"
    and I :: "('t, 'b, 'w) world \<Rightarrow> bool"
  assumes I_programs: "emits_only allowed (bt_call (env_btstack env) call b)"
    and I_stack: "I w \<Longrightarrow> I (w\<lparr>stack := b\<rparr>)"
    and I_read: "I w \<Longrightarrow> I (fst (do_att_read env c a off null n w))"
    and I_write: "I w \<Longrightarrow> I (fst (do_att_write env c a mode off bs n w))"
    and I_send: "I w \<Longrightarrow> I (fst (send_packet env kind packet w))"
    and I_event: "\<lbrakk> I w; allowed type packet sz \<rbrakk> \<Longrightarrow> I (do_event env type packet sz m w)"
    and I_can_send: "I w \<Longrightarrow> I (do_can_send i w)"
begin

lemma run_c_keeps: "\<lbrakk> I w; emits_only allowed p \<rbrakk> \<Longrightarrow> I (fst (run_c env p w))"
proof (induction p arbitrary: w)
  case (C_Return b r)
  then show ?case by (simp add: I_stack)
next
  case (C_Att_Read c a off null n k)
  then show ?case
    using I_read [OF C_Att_Read.prems(1), of c a off null n]
    by (cases "do_att_read env c a off null n w") simp
next
  case (C_Att_Write c a mode off bs n k)
  then show ?case
    using I_write [OF C_Att_Write.prems(1), of c a mode off bs n]
    by (cases "do_att_write env c a mode off bs n w") simp
next
  case (C_Send_Packet kind packet k)
  then show ?case
    using I_send [OF C_Send_Packet.prems(1), of kind packet]
    by (cases "send_packet env kind packet w") simp
qed (simp_all add: I_event I_can_send)

lemma call_c_keeps: "I w \<Longrightarrow> I (fst (call_c env c w))"
  unfolding call_c_def by (rule run_c_keeps [OF _ I_programs])

lemma call_all_keeps: "I w \<Longrightarrow> I (call_all env cs w)"
  unfolding call_all_def by (induction cs arbitrary: w) (auto intro: call_c_keeps)

lemma rs_receive_keeps: "I w \<Longrightarrow> I (rs_receive env p w)"
  unfolding rs_receive_def by (rule call_c_keeps)

lemma rs_poll_keeps: "I w \<Longrightarrow> I (rs_poll env w)"
  unfolding rs_poll_def by (rule call_c_keeps)

lemma rs_notify_keeps: "I w \<Longrightarrow> I (fst (rs_notify env c a bs w))"
  using call_c_keeps [of w "Att_Server_Notify c a bs"]
  by (cases "call_c env (Att_Server_Notify c a bs) w") (simp add: rs_notify_def)

end

text \<open>The shim's own writes of \<^verbatim>\<open>rs_request_send\<close> added to the contract.\<close>

locale request_invariant = callback_invariant +
  assumes I_claim: "\<lbrakk> I w; \<not> requested h (shim w); free_slot (shim w) = Some i \<rbrakk>
      \<Longrightarrow> I (w\<lparr>shim := claim_slot i h (shim w)\<rparr>)"
    and I_release: "I w \<Longrightarrow> I (w\<lparr>shim := set_busy i False (shim w)\<rparr>)"
begin

lemma rs_request_send_keeps: "I w \<Longrightarrow> I (rs_request_send env h w)"
proof (cases "requested h (shim w)")
  case True
  then show "I w \<Longrightarrow> I (rs_request_send env h w)" by (simp add: rs_request_send_def)
next
  case False
  assume w: "I w"
  show "I (rs_request_send env h w)"
  proof (cases "free_slot (shim w)")
    case None
    with w False show ?thesis by (simp add: rs_request_send_def)
  next
    case (Some i)
    let ?w1 = "w\<lparr>shim := claim_slot i h (shim w)\<rparr>"
    obtain w2 r where c: "call_c env (Request_To_Send_Notification i h) ?w1 = (w2, r)"
      by (cases "call_c env (Request_To_Send_Notification i h) ?w1") blast
    have "I w2"
      using call_c_keeps [OF I_claim [OF w False Some], of "Request_To_Send_Notification i h"] c by simp
    with c False Some show ?thesis by (simp add: rs_request_send_def I_release)
  qed
qed

end

section \<open>What no call changes\<close>

text \<open>
  No call into C touches the connections, the attribute table, the notification queue or the
  generation counter: only the run loop does.
\<close>

definition same_server :: "('t, 'b, 'w) world \<Rightarrow> ('t, 'b, 'w) world \<Rightarrow> bool" where
  "same_server w0 w \<longleftrightarrow>
     (case server w0 of
        None \<Rightarrow> server w = None
      | Some s0 \<Rightarrow> (\<exists>s. server w = Some s \<and> attributes s = attributes s0
          \<and> connections s = connections s0 \<and> pending s = pending s0))
     \<and> next_connection w = next_connection w0 \<and> (transport w = None) = (transport w0 = None)"

lemma same_server_refl [simp]: "same_server w w"
  by (simp add: same_server_def split: option.split)

lemma att_read_None: "att_read oc a None c at off null n = (a, None, 0xfe0e, [])"
  by (simp add: att_read_def)

lemma att_write_None: "fst (snd (att_write oc a None c at mode off bs n)) = None"
  by (simp add: att_write_def Let_def)

lemma do_att_read_server:
  assumes "server w = Some s"
  obtains s' where "server (fst (do_att_read env c a off null n w)) = Some s'"
    "callback_frame c s s'" "subscriptions s' = subscriptions s" "events s' = events s"
    "state_ok s \<longrightarrow> state_ok s'"
proof -
  obtain app' st' code out where
    eq: "att_read (overflow_checks env) (app w) (Some s) c a off null n = (app', st', code, out)"
    by (cases "att_read (overflow_checks env) (app w) (Some s) c a off null n") auto
  from att_read_ok [OF eq] obtain s' where "st' = Some s'" "callback_frame c s s'"
    "subscriptions s' = subscriptions s" "events s' = events s" "state_ok s \<longrightarrow> state_ok s'" .
  with eq assms that show thesis by (simp add: do_att_read_def)
qed

lemma do_att_write_server:
  assumes "server w = Some s"
  obtains s' where "server (fst (do_att_write env c a mode off bs n w)) = Some s'"
    "callback_frame c s s'" "state_ok s \<longrightarrow> state_ok s'"
proof -
  obtain app' st' code where
    eq: "att_write (overflow_checks env) (app w) (Some s) c a mode off bs n = (app', st', code)"
    by (cases "att_write (overflow_checks env) (app w) (Some s) c a mode off bs n") auto
  from att_write_ok [OF eq] obtain s' where "st' = Some s'" "callback_frame c s s'"
    "state_ok s \<longrightarrow> state_ok s'" .
  with eq assms that show thesis by (simp add: do_att_write_def)
qed

lemma do_att_none:
  assumes "server w = None"
  shows "server (fst (do_att_read env c a off null n w)) = None"
    and "server (fst (do_att_write env c a mode off bs n w)) = None"
  using assms att_write_None [of "overflow_checks env" "app w" c a mode off bs n]
  by (auto simp: do_att_read_def do_att_write_def att_read_None split: prod.split)

text \<open>The fields a callback cannot write.\<close>

lemma do_att_read_fields [simp, frame]:
  "transport (fst (do_att_read env c a off null n w)) = transport w"
  "event_queue (fst (do_att_read env c a off null n w)) = event_queue w"
  "failure (fst (do_att_read env c a off null n w)) = failure w"
  "next_connection (fst (do_att_read env c a off null n w)) = next_connection w"
  "shim (fst (do_att_read env c a off null n w)) = shim w"
  by (simp_all add: do_att_read_def split: prod.split)

lemma do_att_write_fields [simp, frame]:
  "transport (fst (do_att_write env c a mode off bs n w)) = transport w"
  "event_queue (fst (do_att_write env c a mode off bs n w)) = event_queue w"
  "failure (fst (do_att_write env c a mode off bs n w)) = failure w"
  "next_connection (fst (do_att_write env c a mode off bs n w)) = next_connection w"
  "shim (fst (do_att_write env c a mode off bs n w)) = shim w"
  by (simp_all add: do_att_write_def split: prod.split)

lemma send_packet_fields [simp, frame]:
  "server (fst (send_packet env kind packet w)) = server w"
  "event_queue (fst (send_packet env kind packet w)) = event_queue w"
  "next_connection (fst (send_packet env kind packet w)) = next_connection w"
  "shim (fst (send_packet env kind packet w)) = shim w"
  "app (fst (send_packet env kind packet w)) = app w"
  "(transport (fst (send_packet env kind packet w)) = None) = (transport w = None)"
  by (simp_all add: send_packet_def transport_send_def split: prod.split option.split outcome.split sum.split)

lemma do_event_fields [simp, frame]:
  "server (do_event env type packet sz m w) = server w"
  "transport (do_event env type packet sz m w) = transport w"
  "failure (do_event env type packet sz m w) = failure w"
  "next_connection (do_event env type packet sz m w) = next_connection w"
  "app (do_event env type packet sz m w) = app w"
  by (simp_all add: do_event_def split: prod.split)

lemma do_can_send_fields [simp, frame]:
  "server (do_can_send i w) = server w"
  "transport (do_can_send i w) = transport w"
  "failure (do_can_send i w) = failure w"
  "next_connection (do_can_send i w) = next_connection w"
  "app (do_can_send i w) = app w"
  by (simp_all add: do_can_send_def split: prod.split)

lemma same_server_read: "same_server w0 w \<Longrightarrow> same_server w0 (fst (do_att_read env c a off null n w))"
proof (cases "server w")
  case None
  then show "same_server w0 w \<Longrightarrow> ?thesis"
    using do_att_none(1) [OF None] by (auto simp: same_server_def split: option.splits)
next
  case (Some s)
  from do_att_read_server [OF this] obtain s' where
    "server (fst (do_att_read env c a off null n w)) = Some s'" "callback_frame c s s'" .
  with Some show "same_server w0 w \<Longrightarrow> ?thesis"
    by (auto simp: same_server_def callback_frame_def split: option.splits)
qed

lemma same_server_write: "same_server w0 w \<Longrightarrow> same_server w0 (fst (do_att_write env c a mode off bs n w))"
proof (cases "server w")
  case None
  then show "same_server w0 w \<Longrightarrow> ?thesis"
    using do_att_none(2) [OF None] by (auto simp: same_server_def split: option.splits)
next
  case (Some s)
  from do_att_write_server [OF this] obtain s' where
    "server (fst (do_att_write env c a mode off bs n w)) = Some s'" "callback_frame c s s'" .
  with Some show "same_server w0 w \<Longrightarrow> ?thesis"
    by (auto simp: same_server_def callback_frame_def split: option.splits)
qed

interpretation frame_inv: request_invariant env "\<lambda>_ _ _. True" "same_server w0" for env w0
  by unfold_locales
    (simp_all add: same_server_read same_server_write,
      simp_all add: same_server_def split: option.splits)

section \<open>The invariant of the stack thread\<close>

definition world_ok :: "('t, 'b, 'w) world \<Rightarrow> bool" where
  "world_ok w \<longleftrightarrow>
     (\<exists>s. server w = Some s \<and> state_ok s) \<and> transport w \<noteq> None \<and> bridge_ok (shim w)"

lemma world_ok_read: "world_ok w \<Longrightarrow> world_ok (fst (do_att_read env c a off null n w))"
  by (auto simp: world_ok_def elim: do_att_read_server)

lemma world_ok_write: "world_ok w \<Longrightarrow> world_ok (fst (do_att_write env c a mode off bs n w))"
  by (auto simp: world_ok_def elim: do_att_write_server)

lemma world_ok_send: "world_ok w \<Longrightarrow> world_ok (fst (send_packet env kind packet w))"
  using send_packet_fields(6) [of env kind packet w] by (simp add: world_ok_def)

lemma world_ok_event: "world_ok w \<Longrightarrow> world_ok (do_event env type packet sz m w)"
  using bridge_ok_event_handler [of "shim w" "env_btstack env" type packet sz m "event_queue w"]
  by (auto simp: world_ok_def do_event_def split: prod.split)

lemma world_ok_can_send: "world_ok w \<Longrightarrow> world_ok (do_can_send i w)"
  using bridge_ok_can_send [of "shim w" i "event_queue w"]
  by (auto simp: world_ok_def do_can_send_def split: prod.split)

interpretation ok_inv: request_invariant env "\<lambda>_ _ _. True" world_ok for env
  by unfold_locales
    (auto simp: world_ok_read world_ok_write world_ok_event world_ok_can_send world_ok_send,
      auto simp: world_ok_def intro: inv_intros)

text \<open>Events already queued stay at the front of the queue.\<close>

definition queue_extends :: "('t, 'b, 'w) world \<Rightarrow> ('t, 'b, 'w) world \<Rightarrow> bool" where
  "queue_extends w0 w \<longleftrightarrow> (\<exists>new. event_queue w = event_queue w0 @ new)"

lemma queue_extends_refl [simp]: "queue_extends w w"
  by (simp add: queue_extends_def)

lemma queue_extends_event: "queue_extends w0 w \<Longrightarrow> queue_extends w0 (do_event env type packet sz m w)"
  using event_handler_appends [of "env_btstack env" type packet sz m "shim w" "event_queue w"]
  by (auto simp: queue_extends_def do_event_def split: prod.split)

lemma queue_extends_can_send: "queue_extends w0 w \<Longrightarrow> queue_extends w0 (do_can_send i w)"
  using can_send_appends [of i "shim w" "event_queue w"]
  by (auto simp: queue_extends_def do_can_send_def split: prod.split)

interpretation queue_inv: request_invariant env "\<lambda>_ _ _. True" "queue_extends w0" for env w0
  by unfold_locales
    (auto simp: queue_extends_event queue_extends_can_send, auto simp: queue_extends_def)

end
