(* ===== verification/Event_Loop.thy ===== *)
theory Event_Loop
  imports World
begin

text \<open>
  The event dispatch of \<^verbatim>\<open>run\<close> and \<^verbatim>\<open>flush_notification\<close> in btstack-core/src/runtime.rs: the
  loop that drains EVENTS, the transition per event kind, and the sending of one queued notification
  per can-send event. A step ends in \<open>Next\<close> (the loop goes on) or \<open>Exit\<close> with the value \<^verbatim>\<open>run\<close>
  returns or the panic that unwinds out of it (an \<^verbatim>\<open>unwrap\<close> of an absent state). Handling an event can
  make BTstack queue more events, so the drain loop's termination is a theorem: every event that
  calls into the stack uses up a queued notification.
\<close>

datatype flow = Next | Exit "(error + unit) outcome"

text \<open>The local variables of \<^verbatim>\<open>run\<close>, the signals sent on \<^verbatim>\<open>ready\<close> and the answers to commands.\<close>

record run_local =
  started :: bool
  ready_signals :: nat
  replies :: "(nat \<times> (error + unit)) list"

definition run_start :: run_local where
  "run_start = \<lparr>started = False, ready_signals = 0, replies = []\<rparr>"

section \<open>One event\<close>

text \<open>\<^verbatim>\<open>STATE.with(|s| f(s.borrow_mut().as_mut().unwrap()))\<close>.\<close>

definition update_server ::
  "('w state \<Rightarrow> 'w state) \<Rightarrow> ('t, 'b, 'w) world \<Rightarrow> ('t, 'b, 'w) world outcome" where
  "update_server f w =
     (case server w of
        None \<Rightarrow> Panicked
      | Some s \<Rightarrow> Returned (w\<lparr>server := Some (f s)\<rparr>))"

definition flow_of :: "('t, 'b, 'w) world \<Rightarrow> ('t, 'b, 'w) world outcome \<Rightarrow> ('t, 'b, 'w) world \<times> flow" where
  "flow_of w r = (case r of Panicked \<Rightarrow> (w, Exit Panicked) | Returned w' \<Rightarrow> (w', Next))"

definition send_notification ::
  "('t, 'b) env \<Rightarrow> u16 \<Rightarrow> notification \<Rightarrow> ('t, 'b, 'w) world \<Rightarrow> ('t, 'b, 'w) world \<times> flow" where
  "send_notification env h n w =
     (case n of (connection, attribute, bs) \<Rightarrow>
        (case rs_notify env h attribute bs w of
           (w', status) \<Rightarrow>
             if status \<noteq> 0
             then flow_of w' (update_server (report (NotificationFailed connection status)) w')
             else (w', Next)))"

definition flush_notification ::
  "('t, 'b) env \<Rightarrow> u16 \<Rightarrow> ('t, 'b, 'w) world \<Rightarrow> ('t, 'b, 'w) world \<times> flow" where
  "flush_notification env h w =
     (case server w of
        None \<Rightarrow> (w, Exit Panicked)
      | Some s \<Rightarrow>
          (case take_pending h s of
             (None, _) \<Rightarrow> (w, Next)
           | (Some n, s1) \<Rightarrow>
               (case (if flag (subscriptions s1) (h, fst (snd n))
                      then send_notification env h n (w\<lparr>server := Some s1\<rparr>)
                      else (w\<lparr>server := Some s1\<rparr>, Next)) of
                  (w2, Exit r) \<Rightarrow> (w2, Exit r)
                | (w2, Next) \<Rightarrow>
                    (case server w2 of
                       None \<Rightarrow> (w2, Exit Panicked)
                     | Some s2 \<Rightarrow>
                         (if has_pending h s2 then rs_request_send env h w2 else w2, Next)))))"

definition connection_event ::
  "u8 \<Rightarrow> u16 \<Rightarrow> u16 \<Rightarrow> ('t, 'b, 'w) world \<Rightarrow> ('t, 'b, 'w) world \<times> flow" where
  "connection_event kind h v w =
     (case server w of
        None \<Rightarrow> (w, Exit Panicked)
      | Some s \<Rightarrow>
          if kind = 3
          then (w\<lparr>server := Some (handle_connected (next_connection w) h v s),
                  next_connection := next_connection w + 1\<rparr>, Next)
          else if kind = 4 then (w\<lparr>server := Some (handle_disconnected h s)\<rparr>, Next)
          else (w\<lparr>server := Some (handle_mtu h v s)\<rparr>, Next))"

definition handle_event ::
  "('t, 'b) env \<Rightarrow> bridge_event \<Rightarrow> run_local \<Rightarrow> ('t, 'b, 'w) world
     \<Rightarrow> run_local \<times> ('t, 'b, 'w) world \<times> flow" where
  "handle_event env e rl w =
     (case e of (kind, h, v) \<Rightarrow>
        if kind = 1 then (rl, w, Next)
        else if kind = 2 then
          (if v \<noteq> 0 then (rl, w, Exit (Returned (Inl (Advertising_Failed v))))
           else if \<not> started rl
           then (rl\<lparr>started := True, ready_signals := ready_signals rl + 1\<rparr>, w, Next)
           else (rl, w, Next))
        else if kind = 3 \<or> kind = 4 \<or> kind = 7 then (rl, connection_event kind h v w)
        else if kind = 5 then (rl, flush_notification env h w)
        else if kind = 6 then (rl, w, Exit (Returned (Inl (Command_Failed h v))))
        else (rl, w, Next))"

section \<open>The drain loop\<close>

definition pending_count :: "('t, 'b, 'w) world \<Rightarrow> nat" where
  "pending_count w = (case server w of None \<Rightarrow> 0 | Some s \<Rightarrow> length (pending s))"

lemma same_server_pending_count: "same_server w0 w \<Longrightarrow> pending_count w = pending_count w0"
  by (auto simp: same_server_def pending_count_def split: option.splits)

lemma same_server_trans: "same_server a b \<Longrightarrow> same_server b c \<Longrightarrow> same_server a c"
  by (auto simp: same_server_def split: option.splits)

lemma rs_notify_same_server: "same_server w (fst (rs_notify env h a bs w))"
  by (rule frame_inv.rs_notify_keeps) simp

lemma rs_request_send_same_server: "same_server w (rs_request_send env h w)"
  by (rule frame_inv.rs_request_send_keeps) simp

lemma flow_of_report_same_server:
  "flow_of w (update_server (report e) w) = (w', f) \<Longrightarrow> same_server w w'"
  by (auto simp: flow_of_def update_server_def same_server_def split: option.splits)

lemma send_notification_same_server:
  assumes "send_notification env h n w = (w', f)"
  shows "same_server w w'"
proof -
  obtain connection attribute bs where n: "n = (connection, attribute, bs)" by (cases n)
  obtain w1 status where r: "rs_notify env h attribute bs w = (w1, status)"
    by (cases "rs_notify env h attribute bs w")
  then have "same_server w w1" using rs_notify_same_server [of w env h attribute bs] by simp
  with assms n r show ?thesis
    by (auto simp: send_notification_def split: if_splits
        dest: flow_of_report_same_server intro: same_server_trans)
qed

lemma flush_notification_cases:
  assumes "flush_notification env h w = (w', f)"
  shows "w' = w \<or> pending_count w' < pending_count w"
proof (cases "server w")
  case None
  with assms show ?thesis by (simp add: flush_notification_def)
next
  case (Some s)
  note srv = this
  obtain no s1 where t: "take_pending h s = (no, s1)" by (cases "take_pending h s")
  show ?thesis
  proof (cases no)
    case None
    with assms srv t show ?thesis by (simp add: flush_notification_def)
  next
    case (Some n)
    let ?w1 = "w\<lparr>server := Some s1\<rparr>"
    obtain w2 f2 where sent: "(if flag (subscriptions s1) (h, fst (snd n))
        then send_notification env h n ?w1 else (?w1, Next)) = (w2, f2)"
      by (cases "if flag (subscriptions s1) (h, fst (snd n))
        then send_notification env h n ?w1 else (?w1, Next)")
    then have "same_server ?w1 w2"
      by (auto split: if_splits intro: send_notification_same_server)
    moreover have "w' = w2 \<or> w' = rs_request_send env h w2"
      using assms srv t Some sent
      by (auto simp: flush_notification_def split: flow.splits option.splits if_splits)
    ultimately have "same_server ?w1 w'"
      using rs_request_send_same_server [of w2 env h] same_server_trans by blast
    then have "pending_count w' = length (pending s1)"
      using same_server_pending_count [of ?w1 w'] by (simp add: pending_count_def)
    moreover have "pending_count w = Suc (length (pending s1))"
      using take_pending_length [OF t [unfolded Some]] srv by (simp add: pending_count_def)
    ultimately show ?thesis by simp
  qed
qed

lemma connection_event_measure:
  assumes "connection_event kind h v w = (w', f)"
  shows "event_queue w' = event_queue w \<and> pending_count w' \<le> pending_count w"
  using assms
  by (auto simp: connection_event_def pending_count_def split: option.splits if_splits)

lemma handle_event_measure:
  assumes "handle_event env e rl w = (rl', w', f)"
  shows "pending_count w' < pending_count w
    \<or> event_queue w' = event_queue w \<and> pending_count w' \<le> pending_count w"
proof -
  obtain kind h v where e: "e = (kind, h, v)" by (cases e)
  from assms consider "w' = w" | "connection_event kind h v w = (w', f)"
    | "flush_notification env h w = (w', f)"
    by (auto simp: handle_event_def e split: if_splits)
  then show ?thesis
    by cases (auto dest: connection_event_measure flush_notification_cases)
qed

lemma pending_count_queue [simp]: "pending_count (w\<lparr>event_queue := q\<rparr>) = pending_count w"
  by (simp add: pending_count_def)

function drain_events ::
  "('t, 'b) env \<Rightarrow> run_local \<Rightarrow> ('t, 'b, 'w) world \<Rightarrow> run_local \<times> ('t, 'b, 'w) world \<times> flow" where
  "drain_events env rl w =
     (case event_queue w of
        [] \<Rightarrow> (rl, w, Next)
      | e # es \<Rightarrow>
          (case handle_event env e rl (w\<lparr>event_queue := es\<rparr>) of
             (rl', w', Next) \<Rightarrow> drain_events env rl' w'
           | (rl', w', Exit r) \<Rightarrow> (rl', w', Exit r)))"
  by pat_completeness auto

termination
proof (relation "measures [\<lambda>(env, rl, w). pending_count w, \<lambda>(env, rl, w). length (event_queue w)]",
    goal_cases)
  case 1
  then show ?case by simp
next
  case (2 env rl w e es rl' y w' f)
  then have "handle_event env e rl (w\<lparr>event_queue := es\<rparr>) = (rl', w', f)" by simp
  from handle_event_measure [OF this] 2(1) show ?case by auto
qed

declare drain_events.simps [simp del]

lemma drain_events_Nil: "event_queue w = [] \<Longrightarrow> drain_events env rl w = (rl, w, Next)"
  by (simp add: drain_events.simps)

lemma drain_events_Cons:
  "event_queue w = e # es \<Longrightarrow> drain_events env rl w =
     (case handle_event env e rl (w\<lparr>event_queue := es\<rparr>) of
        (rl', w', Next) \<Rightarrow> drain_events env rl' w'
      | (rl', w', Exit r) \<Rightarrow> (rl', w', Exit r))"
  by (subst drain_events.simps) simp

section \<open>The invariant, and no panic\<close>

lemma update_server_ok:
  assumes "world_ok w" and "\<And>s. state_ok s \<Longrightarrow> state_ok (f s)"
  shows "\<exists>w'. update_server f w = Returned w' \<and> world_ok w'"
  using assms by (auto simp: world_ok_def update_server_def)

lemma send_notification_ok:
  assumes "world_ok w" and "send_notification env h n w = (w', f)"
  shows "world_ok w' \<and> f = Next"
proof -
  obtain connection attribute bs where n: "n = (connection, attribute, bs)" by (cases n)
  obtain w1 status where r: "rs_notify env h attribute bs w = (w1, status)"
    by (cases "rs_notify env h attribute bs w")
  have w1: "world_ok w1"
    using ok_inv.rs_notify_keeps [OF assms(1), of env h attribute bs] r by simp
  from update_server_ok [OF this, of "report (NotificationFailed connection status)"] obtain w2 where
    "update_server (report (NotificationFailed connection status)) w1 = Returned w2" "world_ok w2"
    by auto
  with assms(2) n r w1 show ?thesis
    by (auto simp: send_notification_def flow_of_def split: if_splits)
qed

lemma flush_notification_ok:
  assumes "world_ok w" and "flush_notification env h w = (w', f)"
  shows "world_ok w' \<and> f = Next"
proof -
  from assms(1) obtain s where s: "server w = Some s" "state_ok s" by (auto simp: world_ok_def)
  obtain no s1 where t: "take_pending h s = (no, s1)" by (cases "take_pending h s")
  show ?thesis
  proof (cases no)
    case None
    with assms s t show ?thesis by (simp add: flush_notification_def)
  next
    case (Some n)
    let ?w1 = "w\<lparr>server := Some s1\<rparr>"
    have w1: "world_ok ?w1"
      using assms(1) state_ok_take_pending [OF s(2) t] by (simp add: world_ok_def)
    obtain w2 f2 where sent: "(if flag (subscriptions s1) (h, fst (snd n))
        then send_notification env h n ?w1 else (?w1, Next)) = (w2, f2)"
      by (cases "if flag (subscriptions s1) (h, fst (snd n))
        then send_notification env h n ?w1 else (?w1, Next)")
    then have w2: "world_ok w2 \<and> f2 = Next"
      using w1 send_notification_ok [OF w1, of env h n] by (auto split: if_splits)
    then obtain s2 where "server w2 = Some s2" by (auto simp: world_ok_def)
    with assms(2) s t Some sent w2 show ?thesis
      by (auto simp: flush_notification_def intro: ok_inv.rs_request_send_keeps split: if_splits)
  qed
qed

lemma connection_event_ok:
  assumes "world_ok w" and "connection_event kind h v w = (w', f)"
  shows "world_ok w' \<and> f = Next"
  using assms
  by (auto simp: connection_event_def world_ok_def state_ok_connected state_ok_disconnected
      state_ok_mtu split: if_splits)

lemma handle_event_ok:
  assumes "world_ok w" and "handle_event env e rl w = (rl', w', f)"
  shows "world_ok w' \<and> f \<noteq> Exit Panicked"
proof -
  obtain kind h v where e: "e = (kind, h, v)" by (cases e)
  from assms(2) consider "w' = w \<and> f \<noteq> Exit Panicked" | "connection_event kind h v w = (w', f)"
    | "flush_notification env h w = (w', f)"
    by (auto simp: handle_event_def e split: if_splits)
  then show ?thesis
    using assms(1) by cases (auto dest: connection_event_ok flush_notification_ok)
qed

lemma world_ok_queue [simp]: "world_ok (w\<lparr>event_queue := q\<rparr>) = world_ok w"
  by (simp add: world_ok_def)

lemma drain_events_ok:
  "\<lbrakk> world_ok w; drain_events env rl w = (rl', w', f) \<rbrakk> \<Longrightarrow> world_ok w' \<and> f \<noteq> Exit Panicked"
proof (induction env rl w rule: drain_events.induct)
  case (1 env rl w)
  show ?case
  proof (cases "event_queue w")
    case Nil
    with "1.prems" show ?thesis by (simp add: drain_events.simps [of env rl w])
  next
    case (Cons e es)
    obtain rl1 w1 f1 where h: "handle_event env e rl (w\<lparr>event_queue := es\<rparr>) = (rl1, w1, f1)"
      by (cases "handle_event env e rl (w\<lparr>event_queue := es\<rparr>)") auto
    have w1: "world_ok w1 \<and> f1 \<noteq> Exit Panicked"
      using handle_event_ok [OF _ h] "1.prems"(1) by simp
    show ?thesis
    proof (cases f1)
      case Next
      with "1.IH" [OF Cons h [symmetric] refl Next] w1 "1.prems"(2) Cons h show ?thesis
        by (simp add: drain_events.simps [of env rl w])
    next
      case (Exit r)
      with "1.prems"(2) Cons h w1 show ?thesis by (simp add: drain_events.simps [of env rl w])
    qed
  qed
qed

text \<open>The loop leaves only with an empty queue or an exit.\<close>

lemma drain_events_empty:
  "drain_events env rl w = (rl', w', Next) \<Longrightarrow> event_queue w' = []"
proof (induction env rl w rule: drain_events.induct)
  case (1 env rl w)
  show ?case
  proof (cases "event_queue w")
    case Nil
    with "1.prems" show ?thesis by (simp add: drain_events.simps [of env rl w])
  next
    case (Cons e es)
    obtain rl1 w1 f1 where h: "handle_event env e rl (w\<lparr>event_queue := es\<rparr>) = (rl1, w1, f1)"
      by (cases "handle_event env e rl (w\<lparr>event_queue := es\<rparr>)") auto
    with "1.prems" Cons have "f1 = Next"
      by (cases f1) (simp_all add: drain_events.simps [of env rl w])
    with "1.IH" [OF Cons h [symmetric] refl this] "1.prems" Cons h show ?thesis
      by (simp add: drain_events.simps [of env rl w])
  qed
qed

end
