(* ===== verification/Run_Loop.thy ===== *)
theory Run_Loop
  imports Event_Loop
begin

text \<open>
  \<^verbatim>\<open>run\<close> and \<^verbatim>\<open>stop_controller\<close> of btstack-core/src/runtime.rs. What the loop cannot decide
  itself is its input: per iteration the results of its \<^verbatim>\<open>try_recv\<close> calls in order (the commands
  other threads sent) and the time since the loop began; for the shutdown, per iteration whether the
  deadline has passed. \<open>run\<close> over a list of inputs ends in \<open>Next\<close> when the inputs are used up with
  the loop still running.
\<close>

section \<open>Commands\<close>

text \<open>The number names the channel the answer goes to.\<close>

datatype command = Stop | Notify gatt_connection uuid bytes nat

definition reply :: "nat \<Rightarrow> error + unit \<Rightarrow> run_local \<Rightarrow> run_local" where
  "reply i r rl = rl\<lparr>replies := replies rl @ [(i, r)]\<rparr>"

definition process_command ::
  "('t, 'b) env \<Rightarrow> command \<Rightarrow> run_local \<Rightarrow> ('t, 'b, 'w) world
     \<Rightarrow> run_local \<times> ('t, 'b, 'w) world \<times> flow" where
  "process_command env c rl w =
     (case c of
        Stop \<Rightarrow> (rl, w, Exit (Returned (Inr ())))
      | Notify connection u bs i \<Rightarrow>
          (case server w of
             None \<Rightarrow> (rl, w, Exit Panicked)
           | Some s \<Rightarrow>
               (case enqueue_notification connection u bs s of
                  Inl e \<Rightarrow> (reply i (Inl e) rl, w, Next)
                | Inr s' \<Rightarrow>
                    (reply i (Inr ()) rl,
                     rs_request_send env (conn_handle connection) (w\<lparr>server := Some s'\<rparr>), Next))))"

text \<open>The loop \<^verbatim>\<open>for _ in 0..128\<close>.\<close>

fun drain_commands ::
  "('t, 'b) env \<Rightarrow> nat \<Rightarrow> command received list \<Rightarrow> run_local \<Rightarrow> ('t, 'b, 'w) world
     \<Rightarrow> run_local \<times> ('t, 'b, 'w) world \<times> flow" where
  "drain_commands env (Suc n) (Received c # ps) rl w =
     (case process_command env c rl w of
        (rl', w', Next) \<Rightarrow> drain_commands env n ps rl' w'
      | (rl', w', Exit r) \<Rightarrow> (rl', w', Exit r))"
| "drain_commands env (Suc n) (Senders_Gone # ps) rl w = (rl, w, Exit (Returned (Inr ())))"
| "drain_commands env (Suc n) (Nothing_Yet # ps) rl w = (rl, w, Next)"
| "drain_commands env (Suc n) [] rl w = (rl, w, Next)"
| "drain_commands env 0 ps rl w = (rl, w, Next)"

section \<open>One packet and one poll\<close>

text \<open>Both loops receive with a timeout of 5 milliseconds, check the framing, and pass the packet on.\<close>

definition receive_packet ::
  "('t, 'b) env \<Rightarrow> ('t, 'b, 'w) world \<Rightarrow> ('t, 'b, 'w) world \<times> flow" where
  "receive_packet env w =
     (case transport w of
        None \<Rightarrow> (w, Exit Panicked)
      | Some t \<Rightarrow>
          (case t_receive (env_transport env) t 5 of
             (t', Panicked) \<Rightarrow> (w\<lparr>transport := Some t'\<rparr>, Exit Panicked)
           | (t', Returned (Inl e)) \<Rightarrow> (w\<lparr>transport := Some t'\<rparr>, Exit (Returned (Inl e)))
           | (t', Returned (Inr None)) \<Rightarrow> (w\<lparr>transport := Some t'\<rparr>, Next)
           | (t', Returned (Inr (Some p))) \<Rightarrow>
               (case validate_packet p of
                  Inl e \<Rightarrow> (w\<lparr>transport := Some t'\<rparr>, Exit (Returned (Inl e)))
                | Inr _ \<Rightarrow> (rs_receive env p (w\<lparr>transport := Some t'\<rparr>), Next))))"

definition poll_stack :: "('t, 'b) env \<Rightarrow> ('t, 'b, 'w) world \<Rightarrow> ('t, 'b, 'w) world \<times> flow" where
  "poll_stack env w =
     (let w' = rs_poll env w
      in case failure w' of
           Some e \<Rightarrow> (w'\<lparr>failure := None\<rparr>, Exit (Returned (Inl e)))
         | None \<Rightarrow> (w', Next))"

definition receive_and_poll ::
  "('t, 'b) env \<Rightarrow> ('t, 'b, 'w) world \<Rightarrow> ('t, 'b, 'w) world \<times> flow" where
  "receive_and_poll env w =
     (case receive_packet env w of
        (w', Exit r) \<Rightarrow> (w', Exit r)
      | (w', Next) \<Rightarrow> poll_stack env w')"

section \<open>The main loop\<close>

text \<open>The time is in nanoseconds.\<close>

record run_input =
  polls :: "command received list"
  elapsed :: nat

definition startup_limit :: nat where
  "startup_limit = 20 * 10 ^ 9"

definition check_startup :: "nat \<Rightarrow> run_local \<Rightarrow> flow" where
  "check_startup t rl =
     (if \<not> started rl \<and> startup_limit < t then Exit (Returned (Inl Init_Timed_Out)) else Next)"

definition run_iteration ::
  "('t, 'b) env \<Rightarrow> run_input \<Rightarrow> run_local \<Rightarrow> ('t, 'b, 'w) world
     \<Rightarrow> run_local \<times> ('t, 'b, 'w) world \<times> flow" where
  "run_iteration env inp rl w =
     (case drain_commands env 128 (polls inp) rl w of
        (rl1, w1, Exit r) \<Rightarrow> (rl1, w1, Exit r)
      | (rl1, w1, Next) \<Rightarrow>
          (case receive_and_poll env w1 of
             (w2, Exit r) \<Rightarrow> (rl1, w2, Exit r)
           | (w2, Next) \<Rightarrow>
               (case drain_events env rl1 w2 of
                  (rl3, w3, Exit r) \<Rightarrow> (rl3, w3, Exit r)
                | (rl3, w3, Next) \<Rightarrow> (rl3, w3, check_startup (elapsed inp) rl3))))"

fun run ::
  "('t, 'b) env \<Rightarrow> run_input list \<Rightarrow> run_local \<Rightarrow> ('t, 'b, 'w) world
     \<Rightarrow> run_local \<times> ('t, 'b, 'w) world \<times> flow" where
  "run env [] rl w = (rl, w, Next)"
| "run env (inp # inps) rl w =
     (case run_iteration env inp rl w of
        (rl', w', Next) \<Rightarrow> run env inps rl' w'
      | (rl', w', Exit r) \<Rightarrow> (rl', w', Exit r))"

lemma run_iteration_cases:
  assumes "run_iteration env inp rl w = (rl', w', f)"
  obtains (commands) r where "drain_commands env 128 (polls inp) rl w = (rl', w', Exit r)" "f = Exit r"
  | (stack) w1 r where "drain_commands env 128 (polls inp) rl w = (rl', w1, Next)"
      "receive_and_poll env w1 = (w', Exit r)" "f = Exit r"
  | (events) rl1 w1 w2 r where "drain_commands env 128 (polls inp) rl w = (rl1, w1, Next)"
      "receive_and_poll env w1 = (w2, Next)" "drain_events env rl1 w2 = (rl', w', Exit r)" "f = Exit r"
  | (all) rl1 w1 w2 where "drain_commands env 128 (polls inp) rl w = (rl1, w1, Next)"
      "receive_and_poll env w1 = (w2, Next)" "drain_events env rl1 w2 = (rl', w', Next)"
      "f = check_startup (elapsed inp) rl'"
proof -
  obtain rl1 w1 f1 where c: "drain_commands env 128 (polls inp) rl w = (rl1, w1, f1)"
    by (cases "drain_commands env 128 (polls inp) rl w") auto
  obtain w2 f2 where p: "receive_and_poll env w1 = (w2, f2)" by (cases "receive_and_poll env w1")
  obtain rl3 w3 f3 where d: "drain_events env rl1 w2 = (rl3, w3, f3)"
    by (cases "drain_events env rl1 w2") auto
  from assms c p d that show thesis
    by (cases f1; cases f2; cases f3) (auto simp: run_iteration_def)
qed

section \<open>Shutdown\<close>

text \<open>One boolean per iteration: whether the three-second deadline has passed.\<close>

fun stop_loop ::
  "('t, 'b) env \<Rightarrow> bool list \<Rightarrow> ('t, 'b, 'w) world \<Rightarrow> ('t, 'b, 'w) world \<times> flow" where
  "stop_loop env expired w =
     (if rs_is_off env w then (w, Exit (Returned (Inr ())))
      else case expired of
             [] \<Rightarrow> (w, Next)
           | late # rest \<Rightarrow>
               if late then (w, Exit (Returned (Inl Shutdown_Timed_Out)))
               else case receive_and_poll env w of
                      (w', Exit r) \<Rightarrow> (w', Exit r)
                    | (w', Next) \<Rightarrow> stop_loop env rest w')"

declare stop_loop.simps [simp del]

definition stop_controller ::
  "('t, 'b) env \<Rightarrow> bool list \<Rightarrow> ('t, 'b, 'w) world \<Rightarrow> ('t, 'b, 'w) world \<times> flow" where
  "stop_controller env expired w = stop_loop env expired (rs_stop env w)"

section \<open>The invariant through the loops\<close>

text \<open>A transport whose \<open>receive\<close> does not panic; nothing else in the loops can.\<close>

definition receive_returns :: "('t, 'b) env \<Rightarrow> bool" where
  "receive_returns env \<longleftrightarrow> (\<forall>t n. snd (t_receive (env_transport env) t n) \<noteq> Panicked)"

lemma world_ok_transport [simp]: "world_ok w \<Longrightarrow> world_ok (w\<lparr>transport := Some t\<rparr>)"
  by (simp add: world_ok_def)

lemma world_ok_failure [simp]: "world_ok (w\<lparr>failure := f\<rparr>) = world_ok w"
  by (simp add: world_ok_def)

lemma process_command_ok:
  assumes "world_ok w" and "process_command env c rl w = (rl', w', f)"
  shows "world_ok w' \<and> f \<noteq> Exit Panicked"
proof (cases c)
  case Stop
  with assms show ?thesis by (auto simp: process_command_def)
next
  case (Notify connection u bs i)
  from assms(1) obtain s where s: "server w = Some s" "state_ok s" by (auto simp: world_ok_def)
  show ?thesis
  proof (cases "enqueue_notification connection u bs s")
    case (Inl e)
    with assms s Notify show ?thesis by (auto simp: process_command_def)
  next
    case (Inr s')
    with assms(1) state_ok_enqueue [OF s(2) Inr] have "world_ok (w\<lparr>server := Some s'\<rparr>)"
      by (simp add: world_ok_def)
    from ok_inv.rs_request_send_keeps [OF this] assms(2) s Notify Inr show ?thesis
      by (auto simp: process_command_def)
  qed
qed

lemma drain_commands_ok:
  "\<lbrakk> world_ok w; drain_commands env n ps rl w = (rl', w', f) \<rbrakk> \<Longrightarrow> world_ok w' \<and> f \<noteq> Exit Panicked"
proof (induction env n ps rl w rule: drain_commands.induct)
  case (1 env n c ps rl w)
  obtain rl1 w1 f1 where p: "process_command env c rl w = (rl1, w1, f1)"
    by (cases "process_command env c rl w") auto
  from process_command_ok [OF "1.prems"(1) p] have w1: "world_ok w1" "f1 \<noteq> Exit Panicked" by auto
  show ?case
  proof (cases f1)
    case Next
    with "1.IH" [OF p [symmetric] refl Next w1(1)] "1.prems"(2) p show ?thesis by simp
  next
    case (Exit r)
    with "1.prems"(2) p w1 show ?thesis by auto
  qed
qed auto

lemma receive_packet_ok:
  assumes "world_ok w" and "receive_packet env w = (w', f)"
  shows "world_ok w' \<and> (receive_returns env \<longrightarrow> f \<noteq> Exit Panicked)"
proof -
  from assms(1) obtain t where t: "transport w = Some t" by (auto simp: world_ok_def)
  obtain t' r where rcv: "t_receive (env_transport env) t 5 = (t', r)"
    by (cases "t_receive (env_transport env) t 5")
  then have "receive_returns env \<longrightarrow> r \<noteq> Panicked"
    unfolding receive_returns_def by (metis snd_conv)
  with assms t rcv show ?thesis
    by (auto simp: receive_packet_def intro!: ok_inv.rs_receive_keeps
        split: outcome.splits sum.splits option.splits)
qed

lemma poll_stack_ok:
  assumes "world_ok w" and "poll_stack env w = (w', f)"
  shows "world_ok w' \<and> f \<noteq> Exit Panicked"
  using assms ok_inv.rs_poll_keeps [OF assms(1), of env]
  by (auto simp: poll_stack_def Let_def split: option.splits)

lemma receive_and_poll_ok:
  assumes "world_ok w" and "receive_and_poll env w = (w', f)"
  shows "world_ok w' \<and> (receive_returns env \<longrightarrow> f \<noteq> Exit Panicked)"
proof -
  obtain w1 f1 where r: "receive_packet env w = (w1, f1)" by (cases "receive_packet env w")
  from receive_packet_ok [OF assms(1) r] assms(2) r show ?thesis
    by (cases f1) (auto simp: receive_and_poll_def dest: poll_stack_ok)
qed

lemma run_iteration_ok:
  assumes "world_ok w" and "run_iteration env inp rl w = (rl', w', f)"
  shows "world_ok w' \<and> (receive_returns env \<longrightarrow> f \<noteq> Exit Panicked)"
proof -
  obtain rl1 w1 f1 where c: "drain_commands env 128 (polls inp) rl w = (rl1, w1, f1)"
    by (cases "drain_commands env 128 (polls inp) rl w") auto
  from drain_commands_ok [OF assms(1) c] have ok1: "world_ok w1" "f1 \<noteq> Exit Panicked" by auto
  obtain w2 f2 where p: "receive_and_poll env w1 = (w2, f2)" by (cases "receive_and_poll env w1")
  from receive_and_poll_ok [OF ok1(1) p] have ok2:
    "world_ok w2" "receive_returns env \<longrightarrow> f2 \<noteq> Exit Panicked" by auto
  obtain rl3 w3 f3 where d: "drain_events env rl1 w2 = (rl3, w3, f3)"
    by (cases "drain_events env rl1 w2") auto
  from drain_events_ok [OF ok2(1) d] have ok3: "world_ok w3" "f3 \<noteq> Exit Panicked" by auto
  show ?thesis
    using assms(2) c p d ok1 ok2 ok3
    by (cases f1; cases f2; cases f3) (auto simp: run_iteration_def check_startup_def split: if_splits)
qed

lemma run_ok:
  "\<lbrakk> world_ok w; run env inps rl w = (rl', w', f) \<rbrakk>
     \<Longrightarrow> world_ok w' \<and> (receive_returns env \<longrightarrow> f \<noteq> Exit Panicked)"
proof (induction inps arbitrary: rl w)
  case Nil
  then show ?case by simp
next
  case (Cons inp inps)
  obtain rl1 w1 f1 where i: "run_iteration env inp rl w = (rl1, w1, f1)"
    by (cases "run_iteration env inp rl w") auto
  from run_iteration_ok [OF Cons.prems(1) i] Cons.IH [of w1 rl1] Cons.prems(2) i show ?case
    by (cases f1) auto
qed

lemma stop_loop_ok:
  "\<lbrakk> world_ok w; stop_loop env expired w = (w', f) \<rbrakk>
     \<Longrightarrow> world_ok w' \<and> (receive_returns env \<longrightarrow> f \<noteq> Exit Panicked)"
proof (induction env expired w rule: stop_loop.induct)
  case (1 env expired w)
  obtain w1 f1 where p: "receive_and_poll env w = (w1, f1)" by (cases "receive_and_poll env w")
  from receive_and_poll_ok [OF "1.prems"(1) p] "1.prems" show ?case
    using "1.IH" p
    by (cases f1) (auto simp: stop_loop.simps [of env expired w] split: if_splits list.splits)
qed

lemma rs_stop_ok: "world_ok w \<Longrightarrow> world_ok (rs_stop env w)"
  unfolding rs_stop_def
  by (intro ok_inv.call_c_keeps) (simp add: world_ok_def bridge_ok_def busy_handles_def)

end
