(* ===== verification/Example_World.thy ===== *)
theory Example_World
  imports Run_Loop
begin

text \<open>
  A concrete environment for the witnesses: a transport that never fails, a stack whose calls
  return without a callback, and a server with one subscribed peer.
\<close>

section \<open>A concrete environment\<close>

text \<open>A transport that never fails and a stack that does nothing: the witnesses run on it.\<close>

definition quiet_stack :: "unit btstack" where
  "quiet_stack =
     \<lparr>bt_call = (\<lambda>_ b. C_Return b 0), bt_is_off = (\<lambda>_. False), ATT_PROPERTY_DYNAMIC = 0x100,
      HCI_EVENT_PACKET = 4, BTSTACK_EVENT_STATE = 0x60, HCI_EVENT_COMMAND_COMPLETE = 0x0e,
      HCI_EVENT_DISCONNECTION_COMPLETE = 0x05, ATT_EVENT_CONNECTED = 0xb3,
      ATT_EVENT_MTU_EXCHANGE_COMPLETE = 0xb5, state_event_is_working = (\<lambda>_. False),
      little_endian_read_16 = (\<lambda>p i. ucast (p ! i) + 256 * ucast (p ! Suc i)),
      disconnection_get_handle = (\<lambda>p. ucast (p ! 3)), connected_get_handle = (\<lambda>p. ucast (p ! 9)),
      mtu_get_handle = (\<lambda>p. ucast (p ! 2)), mtu_get_MTU = (\<lambda>p. ucast (p ! 4))\<rparr>"

definition quiet_transport :: "unit hci_transport" where
  "quiet_transport =
     \<lparr>t_send = (\<lambda>t _ _. (t, Returned (Inr ()))), t_receive = (\<lambda>t _. (t, Returned (Inr None)))\<rparr>"

definition quiet_env :: "(unit, unit) env" where
  "quiet_env =
     \<lparr>env_transport = quiet_transport, env_btstack = quiet_stack, overflow_checks = True\<rparr>"

definition world_with :: "unit state \<Rightarrow> bridge_event list \<Rightarrow> (unit, unit, unit) world" where
  "world_with s q =
     \<lparr>transport = Some (), server = Some s, event_queue = q, failure = None, next_connection = 8,
      shim = bridge_init \<lparr>send_requests = [], advertising_requested = False, advertising = []\<rparr>,
      stack = (), app = ()\<rparr>"

text \<open>One peer on handle 64, with an attribute 3 it subscribed to.\<close>

definition peer_64 :: gatt_connection where
  "peer_64 = \<lparr>conn_handle = 64, generation = 7, mtu = 23\<rparr>"

definition counter_uuid :: uuid where
  "counter_uuid = uuid_repeat 9"

definition subscribed_state :: "(gatt_connection \<times> u16 \<times> bytes) list \<Rightarrow> unit state" where
  "subscribed_state p =
     \<lparr>attributes = [\<lparr>attr_handle = 3, attr_char = with_notify (characteristic_new counter_uuid)\<rparr>],
      connections = [64 \<mapsto> peer_64], subscriptions = [(64, 3) \<mapsto> True], reads = Map.empty,
      pending = p, events = unbounded\<rparr>"

lemma quiet_receive [simp]: "receive_returns quiet_env"
  by (simp add: receive_returns_def quiet_env_def quiet_transport_def)

lemma quiet_fields [simp]:
  "env_btstack quiet_env = quiet_stack" "bt_call quiet_stack c b = C_Return b 0"
  "env_transport quiet_env = quiet_transport" "rs_is_off quiet_env w = False"
  by (simp_all add: quiet_env_def quiet_stack_def rs_is_off_def)

lemma quiet_call [simp]: "call_c quiet_env c w = (w, 0)"
  by (simp add: call_c_def)

lemma quiet_loop [simp]:
  "rs_poll quiet_env w = w" "rs_notify quiet_env h a v w = (w, 0)"
  "rs_stop quiet_env w = w\<lparr>shim := (shim w)\<lparr>advertising_requested := False\<rparr>\<rparr>"
  by (simp_all add: rs_poll_def rs_notify_def rs_stop_def)

lemma world_with_fields [simp]:
  "server (world_with s q) = Some s" "event_queue (world_with s q) = q"
  "transport (world_with s q) = Some ()" "failure (world_with s q) = None"
  "next_connection (world_with s q) = 8"
  "shim (world_with s q) = \<lparr>send_requests = replicate 16 \<lparr>sr_handle = 0, busy = False\<rparr>,
     advertising_requested = False, advertising = []\<rparr>"
  by (simp_all add: world_with_def bridge_init_def)

lemma world_ok_with [simp]: "world_ok (world_with s q) = state_ok s"
  using bridge_ok_init [of "shim (world_with s q)"]
  by (simp add: world_ok_def bridge_init_def)

lemma state_ok_subscribed [simp]: "state_ok (subscribed_state [])"
  by (auto simp: state_ok_defs subscribed_state_def peer_64_def with_notify_def
      characteristic_new_def notifies_def split: if_splits)

lemma quiet_iteration:
  "transport w = Some () \<Longrightarrow> failure w = None \<Longrightarrow> receive_and_poll quiet_env w = (w, Next)"
  by (simp add: receive_and_poll_def receive_packet_def quiet_transport_def poll_stack_def)

end
