(* ===== verification/Sessions.thy ===== *)
theory Sessions
  imports Att_Callbacks
begin

text \<open>
  The abstract view of the server state: one session per live connection, holding the connection,
  the set of attributes it subscribed to, its read snapshots and its notification queue.
  The code spreads a session over three hash maps and one shared queue; \<open>sessions\<close> collects it again,
  and every transition of \<open>Server_State\<close> and \<open>Att_Callbacks\<close> is shown to be the corresponding
  operation on that one session. This view is a specification, not code of the repository.
\<close>

record session =
  peer :: gatt_connection
  subscribed :: "u16 set"
  snapshots :: "u16 \<rightharpoonup> bytes"
  outbox :: "(u16 \<times> bytes) list"

type_synonym sessions = "u16 \<rightharpoonup> session"

definition session_of :: "'w state \<Rightarrow> u16 \<Rightarrow> gatt_connection \<Rightarrow> session" where
  "session_of s h c =
     \<lparr>peer = c,
      subscribed = {a. flag (subscriptions s) (h, a)},
      snapshots = (\<lambda>a. reads s (h, a)),
      outbox = peer_items h s\<rparr>"

definition sessions :: "'w state \<Rightarrow> sessions" where
  "sessions s = (\<lambda>h. map_option (session_of s h) (connections s h))"

section \<open>The abstract operations\<close>

definition fresh_session :: "gatt_connection \<Rightarrow> session" where
  "fresh_session c = \<lparr>peer = c, subscribed = {}, snapshots = Map.empty, outbox = []\<rparr>"

definition open_session :: "gatt_connection \<Rightarrow> sessions \<Rightarrow> sessions" where
  "open_session c m = m(conn_handle c \<mapsto> fresh_session c)"

definition close_session :: "u16 \<Rightarrow> sessions \<Rightarrow> sessions" where
  "close_session h m = m(h := None)"

definition on_session :: "u16 \<Rightarrow> (session \<Rightarrow> session) \<Rightarrow> sessions \<Rightarrow> sessions" where
  "on_session h f m = m(h := map_option f (m h))"

definition set_mtu :: "u16 \<Rightarrow> session \<Rightarrow> session" where
  "set_mtu v x = x\<lparr>peer := (peer x)\<lparr>mtu := v\<rparr>\<rparr>"

definition subscribe :: "u16 \<Rightarrow> u16 \<Rightarrow> bool \<Rightarrow> session \<Rightarrow> session" where
  "subscribe value_handle cccd e x =
     x\<lparr>subscribed := (if e then insert value_handle (subscribed x) else subscribed x - {value_handle}),
       snapshots := (snapshots x)(cccd := None)\<rparr>"

definition remember :: "u16 \<Rightarrow> bytes \<Rightarrow> session \<Rightarrow> session" where
  "remember a v x = x\<lparr>snapshots := (snapshots x)(a \<mapsto> v)\<rparr>"

definition forget :: "u16 \<Rightarrow> session \<Rightarrow> session" where
  "forget a x = x\<lparr>snapshots := (snapshots x)(a := None)\<rparr>"

definition post :: "u16 \<times> bytes \<Rightarrow> session \<Rightarrow> session" where
  "post n x = x\<lparr>outbox := outbox x @ [n]\<rparr>"

definition deliver :: "session \<Rightarrow> session" where
  "deliver x = x\<lparr>outbox := tl (outbox x)\<rparr>"

section \<open>Each transition implements its operation\<close>

lemma dead_handle_is_clean:
  assumes "state_ok s" and "\<not> live s h"
  shows "subscriptions s (h, a) = None" and "reads s (h, a) = None" and "peer_items h s = []"
proof -
  show "subscriptions s (h, a) = None"
    using assms unfolding state_ok_def subscriptions_ok_def by blast
  show "reads s (h, a) = None"
    using assms by (cases "reads s (h, a)") (auto simp: state_ok_parts)
  have "\<forall>n \<in> set (pending s). live s (conn_handle (fst n))"
    using assms(1) by (auto simp: state_ok_parts)
  with assms(2) show "peer_items h s = []"
    by (auto simp: peer_items_def for_handle_def filter_empty_conv)
qed

lemma sessions_cases:
  "sessions s h = (case connections s h of None \<Rightarrow> None | Some c \<Rightarrow> Some (session_of s h c))"
  by (simp add: sessions_def split: option.split)

lemmas session_simps = sessions_cases on_session_def session_of_def peer_items_def

lemma peer_items_report [simp]: "peer_items h (report e s) = peer_items h s"
  by (simp add: peer_items_def)

lemma sessions_connected:
  assumes "state_ok s" and "\<not> live s h"
  shows "sessions (handle_connected gen h v s) =
    open_session \<lparr>conn_handle = h, generation = gen, mtu = v\<rparr> (sessions s)"
  using dead_handle_is_clean [OF assms]
  by (auto simp: fun_eq_iff session_simps open_session_def fresh_session_def flag_def
      split: option.split)

lemma sessions_disconnected:
  "sessions (handle_disconnected h s) = close_session h (sessions s)"
proof
  fix g
  have "g \<noteq> h \<Longrightarrow> peer_items g (handle_disconnected h s) = peer_items g s"
    by (auto simp: peer_items_def for_handle_def intro!: arg_cong [where f = "map snd"]
        filter_cong [OF refl])
  then show "sessions (handle_disconnected h s) g = close_session h (sessions s) g"
    by (cases "g = h")
      (simp_all add: sessions_cases close_session_def session_of_def split: option.split)
qed

lemma sessions_mtu: "sessions (handle_mtu h v s) = on_session h (set_mtu v) (sessions s)"
  by (auto simp: fun_eq_iff session_simps set_mtu_def split: option.split)

lemma sessions_report [simp]: "sessions (report e s) = sessions s"
  by (simp add: fun_eq_iff session_simps split: option.split)

lemma sessions_snapshot:
  "sessions (s\<lparr>reads := (reads s)((h, a) \<mapsto> v)\<rparr>) = on_session h (remember a v) (sessions s)"
  by (auto simp: fun_eq_iff session_simps remember_def split: option.split)

lemma sessions_forget:
  "sessions (s\<lparr>reads := (reads s)((h, a) := None)\<rparr>) = on_session h (forget a) (sessions s)"
  by (auto simp: fun_eq_iff session_simps forget_def split: option.split)

lemma sessions_subscription:
  "sessions (set_subscription s c a h cccd e) =
     on_session h (subscribe (attr_handle a) cccd e) (sessions s)"
  by (cases e)
    (auto simp: fun_eq_iff session_simps subscribe_def set_subscription_def flag_def
      split: option.split)

lemma sessions_enqueue:
  fixes s :: "'w state"
  assumes "state_ok s" and "enqueue_notification c u v s = Inr s'"
  obtains a :: "'w attribute"
  where "a \<in> set (attributes s)" and "ch_uuid (attr_char a) = u"
    and "sessions s' = on_session (conn_handle c) (post (attr_handle a, v)) (sessions s)"
proof -
  from assms(2) obtain current and a :: "'w attribute" where
    cur: "connections s (conn_handle c) = Some current"
    and a: "List.find (\<lambda>a. ch_uuid (attr_char a) = u) (attributes s) = Some a"
    and s': "s' = s\<lparr>pending := pending s @ [(current, attr_handle a, v)]\<rparr>"
    unfolding enqueue_Inr_iff by (elim exE conjE) (rule that)
  from assms(1) cur have "conn_handle current = conn_handle c" by (simp add: state_ok_parts)
  then have "sessions s' = on_session (conn_handle c) (post (attr_handle a, v)) (sessions s)"
    using cur by (auto simp: s' fun_eq_iff session_simps post_def for_handle_def split: option.split)
  moreover have "a \<in> set (attributes s)" "ch_uuid (attr_char a) = u"
    using a by (auto simp: find_Some_iff)
  ultimately show thesis by (rule that [rotated 2])
qed

lemma sessions_take_pending:
  assumes "take_pending h s = (n, s')"
  shows "sessions s' = on_session h deliver (sessions s)"
proof (cases n)
  case None
  with assms have "s' = s" by (auto dest: take_pending_NoneD)
  with None assms have "\<not> has_pending h s" by (simp add: take_pending_None_iff [symmetric])
  note this and \<open>s' = s\<close>
  then show ?thesis
    by (auto simp: fun_eq_iff session_simps deliver_def has_pending_def list_ex_iff
        filter_empty_conv split: option.split)
next
  case (Some m)
  note t = assms [unfolded Some]
  show ?thesis
    by (rule ext)
      (simp add: sessions_cases on_session_def session_of_def deliver_def take_pending_frame [OF t]
        take_pending_items [OF t] split: option.split)
qed

end
