(* ===== verification/Peer_Properties.thy ===== *)
theory Peer_Properties
  imports Example_World Sessions
begin

text \<open>
  What a connected peer can rely on, over btstack-core/src/runtime.rs and btstack-sys/c/bridge.c:
  the answer to a notify command, the order of its notifications, its one outstanding send request,
  and that its session starts fresh and is its own. The transitions of the server state refine the
  abstract sessions.
\<close>

section \<open>Notify commands\<close>

lemma rs_request_send_server:
  assumes "server w = Some s"
  obtains s' where "server (rs_request_send env h w) = Some s'" "attributes s' = attributes s"
    "connections s' = connections s" "pending s' = pending s"
  using assms rs_request_send_same_server [of w env h] that by (auto simp: same_server_def)

text \<open>
  C20. A notify command gets exactly one answer and never ends the loop. An error leaves the server
  untouched; success means that the connection is live with the same generation, that it subscribed
  to a characteristic with this UUID, that the value fits its MTU less three, and that the value is
  now last in the queue, behind at most 127 others.
\<close>

theorem notify_answer:
  fixes w :: "('t, 'b, 'w) world"
  assumes "server w = Some s"
    and "process_command env (Notify c u v i) rl w = (rl', w', f)"
  shows "f = Next \<and> (\<exists>r. replies rl' = replies rl @ [(i, r)] \<and>
    (case r of
       Inl e \<Rightarrow> w' = w
     | Inr _ \<Rightarrow> (\<exists>current s' n a. connections s (conn_handle c) = Some current
         \<and> generation current = generation c
         \<and> n < length (attributes s) \<and> ch_uuid (attr_char (attributes s ! n)) = u
         \<and> a = attr_handle (attributes s ! n) \<and> flag (subscriptions s) (conn_handle c, a)
         \<and> length v \<le> unat (mtu current) - 3
         \<and> server w' = Some s' \<and> connections s' = connections s
         \<and> pending s' = pending s @ [(current, a, v)] \<and> length (pending s') \<le> 128)))"
proof (cases "enqueue_notification c u v s")
  case (Inl e)
  with assms have "f = Next" "replies rl' = replies rl @ [(i, Inl e)]" "w' = w"
    by (auto simp: process_command_def reply_def)
  then show ?thesis by simp
next
  case (Inr s1)
  from Inr obtain current and a :: "'w attribute" where
    cur: "connections s (conn_handle c) = Some current" "generation current = generation c"
    and a: "List.find (\<lambda>a. ch_uuid (attr_char a) = u) (attributes s) = Some a"
    and ok: "flag (subscriptions s) (conn_handle c, attr_handle a)"
      "length v \<le> unat (mtu current) - 3" "length (pending s) < 128"
    and s1: "s1 = s\<lparr>pending := pending s @ [(current, attr_handle a, v)]\<rparr>"
    unfolding enqueue_Inr_iff by (elim exE conjE) (rule that)
  from a obtain n where n: "n < length (attributes s)" "a = attributes s ! n"
    "ch_uuid (attr_char a) = u" by (auto simp: find_Some_iff)
  obtain s' where s': "server (rs_request_send env (conn_handle c) (w\<lparr>server := Some s1\<rparr>)) = Some s'"
    "attributes s' = attributes s1" "connections s' = connections s1" "pending s' = pending s1"
    by (rule rs_request_send_server [of "w\<lparr>server := Some s1\<rparr>" s1]) simp_all
  have "f = Next" "replies rl' = replies rl @ [(i, Inr ())]"
    "w' = rs_request_send env (conn_handle c) (w\<lparr>server := Some s1\<rparr>)"
    using assms Inr by (auto simp: process_command_def reply_def)
  with cur n ok s1 s' show ?thesis by auto
qed

lemma notify_quiet:
  "process_command quiet_env (Notify peer_64 counter_uuid [1] 5) run_start
     (world_with (subscribed_state []) []) =
   (run_start\<lparr>replies := [(5, Inr ())]\<rparr>,
    rs_request_send quiet_env 64 (world_with (subscribed_state [(peer_64, 3, [1])]) []), Next)"
  by (simp add: process_command_def enqueue_notification_def subscribed_state_def peer_64_def flag_def
      with_notify_def characteristic_new_def saturating_sub_u16_def push_pending_def push_back_def
      reply_def run_start_def world_with_def)

theorem notify_answer_witness:
  "map fst (replies (fst (process_command quiet_env (Notify peer_64 counter_uuid [1] 5) run_start
     (world_with (subscribed_state []) [])))) = [5]"
proof -
  from notify_answer [OF world_with_fields(1) notify_quiet] have
    "map fst (replies (run_start\<lparr>replies := [(5, Inr ())]\<rparr>)) = map fst (replies run_start) @ [5]"
    by auto
  then show ?thesis unfolding notify_quiet by (simp add: run_start_def)
qed

text \<open>
  The error of a refused notification names the first check that failed, in the order of the
  code: the connection, the characteristic, the subscription, the MTU, the queue.
\<close>

theorem notify_errors:
  "enqueue_notification c u v s =
     (if \<not> (\<exists>current. connections s (conn_handle c) = Some current
              \<and> generation current = generation c) then Inl Inactive_Connection
      else if u \<notin> set (map (\<lambda>a. ch_uuid (attr_char a)) (attributes s)) then Inl Unknown_Characteristic
      else let a = hd (filter (\<lambda>a. ch_uuid (attr_char a) = u) (attributes s));
               current = the (connections s (conn_handle c))
           in if \<not> flag (subscriptions s) (conn_handle c, attr_handle a) then Inl Not_Subscribed
              else if length v > unat (mtu current) - 3 then Inl Exceeds_Mtu
              else if length (pending s) \<ge> 128 then Inl Notification_Queue_Full
              else Inr (s\<lparr>pending := pending s @ [(current, attr_handle a, v)]\<rparr>))"
proof -
  have find_hd: "List.find P xs = (if \<exists>x \<in> set xs. P x then Some (hd (filter P xs)) else None)"
    for P and xs :: "'a attribute list" by (induction xs) auto
  show ?thesis
    by (auto simp: enqueue_notification_def find_hd push_pending_def push_back_def
        unat_saturating_sub_u16 Let_def split: option.split)
qed

section \<open>Sending\<close>

lemma take_first_of:
  assumes "pending s = us @ n # vs" and "list_all (\<lambda>m. \<not> for_handle h m) us" and "for_handle h n"
  shows "take_pending h s = (Some n, s\<lparr>pending := us @ vs\<rparr>)"
proof -
  from assms(2) have "remove_first (for_handle h) (us @ n # vs) = Some (n, us @ vs)"
    using assms(3) by (induction us) auto
  with assms(1) show ?thesis by (simp add: take_pending_def)
qed

text \<open>
  C21. A can-send event for a connection takes exactly the oldest notification queued for it, hands it
  to the stack if the peer is still subscribed and drops it otherwise, leaves every other
  notification queued in order, and asks for the next send exactly if the connection has more.
\<close>

theorem flush_takes_the_oldest:
  assumes "world_ok w" and "server w = Some s"
    and "pending s = us @ (c, a, v) # vs" and "conn_handle c = h"
    and "list_all (\<lambda>n. conn_handle (fst n) \<noteq> h) us"
    and "flush_notification env h w = (w', f)"
  shows "f = Next \<and> (\<exists>w1 s'.
    (if flag (subscriptions s) (h, a)
     then send_notification env h (c, a, v) (w\<lparr>server := Some (s\<lparr>pending := us @ vs\<rparr>)\<rparr>) = (w1, Next)
     else w1 = w\<lparr>server := Some (s\<lparr>pending := us @ vs\<rparr>)\<rparr>)
    \<and> w' = (if list_ex (\<lambda>n. conn_handle (fst n) = h) (us @ vs) then rs_request_send env h w1 else w1)
    \<and> server w' = Some s' \<and> pending s' = us @ vs \<and> connections s' = connections s)"
proof -
  let ?s1 = "s\<lparr>pending := us @ vs\<rparr>"
  let ?w0 = "w\<lparr>server := Some ?s1\<rparr>"
  have t: "take_pending h s = (Some (c, a, v), ?s1)"
    using assms(3-5) by (intro take_first_of) (simp_all add: for_handle_def)
  have ok: "world_ok ?w0"
    using assms(1,2) state_ok_take_pending [OF _ t] by (auto simp: world_ok_def)
  obtain w1 f1 where w1: "(if flag (subscriptions s) (h, a) then send_notification env h (c, a, v) ?w0
      else (?w0, Next)) = (w1, f1)"
    by (cases "if flag (subscriptions s) (h, a) then send_notification env h (c, a, v) ?w0
      else (?w0, Next)")
  with ok have f1: "f1 = Next" and same: "same_server ?w0 w1"
    using send_notification_ok [OF ok, of env h] send_notification_same_server [of env h _ ?w0]
    by (auto split: if_splits)
  then obtain s2 where s2: "server w1 = Some s2" "pending s2 = us @ vs"
    "connections s2 = connections s" by (auto simp: same_server_def)
  have w': "w' = (if has_pending h s2 then rs_request_send env h w1 else w1)" "f = Next"
    using assms(2,6) t w1 f1 s2 by (auto simp: flush_notification_def)
  have "same_server w1 w'" using w'(1) rs_request_send_same_server [of w1 env h] by simp
  with s2 obtain s' where "server w' = Some s'" "pending s' = us @ vs" "connections s' = connections s"
    by (auto simp: same_server_def)
  moreover have "has_pending h s2 = list_ex (\<lambda>n. conn_handle (fst n) = h) (us @ vs)"
    using s2(2) by (simp add: has_pending_def for_handle_def [abs_def])
  ultimately show ?thesis
    using w' w1 f1 by (cases "flag (subscriptions s) (h, a)") auto
qed

lemma flush_quiet:
  "flush_notification quiet_env 64 (world_with (subscribed_state [(peer_64, 3, [1])]) []) =
     (world_with (subscribed_state []) [], Next)"
proof -
  have t: "take_pending 64 (subscribed_state [(peer_64, 3, [1])]) =
      (Some (peer_64, 3, [1]), subscribed_state [])"
    using take_first_of [of "subscribed_state [(peer_64, 3, [1])]" "[]" "(peer_64, 3, [1])" "[]" 64]
    by (simp add: for_handle_def peer_64_def subscribed_state_def)
  have f: "flag (subscriptions (subscribed_state [])) (64, 3)"
    by (simp add: subscribed_state_def flag_def)
  have g: "has_pending 64 (subscribed_state []) = False"
    by (simp add: subscribed_state_def has_pending_def)
  have w: "world_with s q\<lparr>server := Some s'\<rparr> = world_with s' q" for s s' q
    by (simp add: world_with_def)
  show ?thesis
    by (simp add: flush_notification_def t f g w send_notification_def del: quiet_fields)
qed

lemma enqueue_quiet:
  "enqueue_notification peer_64 counter_uuid [1] (subscribed_state []) =
     Inr (subscribed_state [(peer_64, 3, [1])])"
  by (simp add: enqueue_notification_def subscribed_state_def peer_64_def flag_def
      with_notify_def characteristic_new_def saturating_sub_u16_def push_pending_def push_back_def)

lemmas state_ok_one_queued = state_ok_enqueue [OF state_ok_subscribed enqueue_quiet]

theorem flush_takes_the_oldest_witness:
  "pending (the (server (fst (flush_notification quiet_env 64
     (world_with (subscribed_state [(peer_64, 3, [1])]) []))))) = []"
proof -
  have "world_ok (world_with (subscribed_state [(peer_64, 3, [1])]) [])"
    by (simp add: state_ok_one_queued)
  from flush_takes_the_oldest [OF this world_with_fields(1), of "[]" peer_64 3 "[1]" "[]" 64 quiet_env]
  show ?thesis unfolding flush_quiet by (simp add: subscribed_state_def)
qed

section \<open>Send requests\<close>

text \<open>
  The shim keeps at most one send request outstanding per connection, in its sixteen slots,
  through any call into C and any request of the run loop: no connection is registered twice with
  BTstack.
\<close>

theorem one_send_request_per_connection:
  assumes "world_ok w"
  shows "distinct (busy_handles (shim (rs_request_send env h (fst (call_c env c w)))))
    \<and> length (send_requests (shim (rs_request_send env h (fst (call_c env c w))))) = 16"
  using ok_inv.rs_request_send_keeps [OF ok_inv.call_c_keeps [OF assms, of env c], of env h]
  by (simp add: world_ok_def bridge_ok_def)

theorem one_send_request_per_connection_witness:
  "distinct (busy_handles (shim (rs_request_send quiet_env 64
     (fst (call_c quiet_env Run_Loop_Execute_Once (world_with initial_state []))))))"
  using one_send_request_per_connection [of "world_with initial_state []" quiet_env 64
      Run_Loop_Execute_Once] by (simp add: state_ok_initial)

text \<open>
  A send request is only dropped when the table is full, and that needs more than sixteen
  connections: while the connections with a request outstanding and the one that asks are among at
  most sixteen, a slot is free, and BTstack is asked with it unless a request is already
  outstanding.
\<close>

theorem send_request_finds_a_slot:
  assumes "world_ok w" and "set (busy_handles (shim w)) \<subseteq> set hs" and "h \<in> set hs"
    and "length hs \<le> 16"
  shows "h \<in> set (busy_handles (shim w)) \<and> rs_request_send env h w = w
    \<or> h \<notin> set (busy_handles (shim w))
      \<and> (\<exists>i w' status. \<not> busy (send_requests (shim w) ! unat i)
           \<and> call_c env (Request_To_Send_Notification i h) (w\<lparr>shim := claim_slot i h (shim w)\<rparr>) = (w', status)
           \<and> rs_request_send env h w =
               (if status \<noteq> 0 then w'\<lparr>shim := set_busy i False (shim w')\<rparr> else w'))"
proof (cases "requested h (shim w)")
  case True
  then show ?thesis by (simp add: rs_request_send_def requested_iff)
next
  case False
  have ok: "bridge_ok (shim w)" using assms(1) by (simp add: world_ok_def)
  have "card (set hs) \<le> 16" using assms(4) card_length [of hs] by linarith
  with free_slot_exists [OF ok False assms(2,3)] obtain i where i: "free_slot (shim w) = Some i"
    by auto
  obtain w' status where
    "call_c env (Request_To_Send_Notification i h) (w\<lparr>shim := claim_slot i h (shim w)\<rparr>) = (w', status)"
    by (cases "call_c env (Request_To_Send_Notification i h) (w\<lparr>shim := claim_slot i h (shim w)\<rparr>)")
  with False i free_slot_SomeD [of "shim w" i] ok show ?thesis
    by (auto simp: rs_request_send_def requested_iff bridge_ok_def)
qed

theorem send_request_finds_a_slot_witness:
  "\<exists>i. rs_request_send quiet_env 64 (world_with initial_state []) =
     (world_with initial_state [])\<lparr>shim := claim_slot i 64 (shim (world_with initial_state []))\<rparr>"
  using send_request_finds_a_slot [of "world_with initial_state []" "[64]" 64 quiet_env]
  by (auto simp: state_ok_initial busy_handles_def)

text \<open>
  A disconnection frees the send request of its connection and of no other, and queues the
  disconnect event behind every event already queued.
\<close>

theorem disconnection_frees_request:
  assumes "2 \<le> sz" and "packet ! 0 = HCI_EVENT_DISCONNECTION_COMPLETE bt"
    and "HCI_EVENT_DISCONNECTION_COMPLETE bt \<noteq> BTSTACK_EVENT_STATE bt"
    and "HCI_EVENT_DISCONNECTION_COMPLETE bt \<noteq> HCI_EVENT_COMMAND_COMPLETE bt"
    and "h = disconnection_get_handle bt packet"
    and "event_handler bt (HCI_EVENT_PACKET bt) packet sz m (b, q) = (b', q')"
  shows "busy_handles b' = filter (\<lambda>g. g \<noteq> h) (busy_handles b) \<and> q' = q @ [(4, h, 0)]"
proof -
  from assms(1) have "\<not> sz < 2" by (simp add: not_less)
  with assms show ?thesis
    by (auto simp: event_handler_def Let_def busy_handles_release rust_event_def)
qed

definition two_requests :: bridge where
  "two_requests = \<lparr>send_requests = [\<lparr>sr_handle = 64, busy = True\<rparr>, \<lparr>sr_handle = 65, busy = True\<rparr>],
     advertising_requested = True, advertising = []\<rparr>"

theorem disconnection_frees_request_witness:
  "busy_handles (fst (event_handler quiet_stack 4 [5, 4, 0, 64, 0, 0x13] 6 23 (two_requests, []))) = [65]"
  using disconnection_frees_request [of 6 "[5, 4, 0, 64, 0, 0x13]" quiet_stack 64 23 two_requests "[]"
      "fst (event_handler quiet_stack 4 [5, 4, 0, 64, 0, 0x13] 6 23 (two_requests, []))"
      "snd (event_handler quiet_stack 4 [5, 4, 0, 64, 0, 0x13] 6 23 (two_requests, []))"]
  by (simp add: quiet_stack_def two_requests_def busy_handles_def)

text \<open>
  A command-complete event of at least six bytes queues exactly this: the advertising event (2)
  with the status, if it completes LE Set Advertising Enable and the server asked to advertise; then
  the failure event (6) with opcode and status, if the status is not zero. So a failed command is
  never missed, and a success of any other command queues nothing.
\<close>

theorem command_complete_events:
  assumes "6 \<le> sz" and "opcode = little_endian_read_16 bt packet 3" and "status = packet ! 5"
  shows "command_complete bt packet sz b q =
    q @ (if opcode = 0x200a \<and> advertising_requested b then [(2, 0, ucast status)] else [])
      @ (if status \<noteq> 0 then [(6, opcode, ucast status)] else [])"
  using assms by (simp add: command_complete_def rust_event_def Let_def)

theorem command_complete_events_witness:
  "command_complete quiet_stack [0x0e, 4, 1, 0x0a, 0x20, 0x0c] 6 two_requests [] =
     [(2, 0, 0x0c), (6, 0x200a, 0x0c)]"
  using command_complete_events [OF _ refl refl, of 6 quiet_stack "[0x0e, 4, 1, 0x0a, 0x20, 0x0c]"
      two_requests "[]"]
  by (simp add: quiet_stack_def two_requests_def)

section \<open>Connections\<close>

text \<open>
  No code of the stack, of the application's handlers or of the transport adds, removes or
  changes a connection, the attribute table, the notification queue or the generation counter: only
  the run loop does. What the handlers can change is the subscription flags and read snapshots.
\<close>

theorem callbacks_leave_connections:
  assumes "server w = Some s" and "call_c env c w = (w', r)"
  shows "\<exists>s'. server w' = Some s' \<and> attributes s' = attributes s \<and> connections s' = connections s
    \<and> pending s' = pending s \<and> next_connection w' = next_connection w"
  using frame_inv.call_c_keeps [of w w env c] assms by (auto simp: same_server_def)

theorem callbacks_leave_connections_witness:
  "server (fst (call_c quiet_env Run_Loop_Execute_Once (world_with initial_state []))) \<noteq> None"
  using callbacks_leave_connections [OF world_with_fields(1) quiet_call, of initial_state "[]"]
  by auto










end
