(* ===== verification/Loop_Contract.thy ===== *)
theory Loop_Contract
  imports Run_Loop
begin

text \<open>
  The contract of the loops with an invariant of the stack thread: \<open>loop_invariant\<close> extends
  \<open>request_invariant\<close> with the writes the Rust side of the loop makes itself, and carries the
  invariant through \<open>run\<close> and \<open>stop_controller\<close>. \<open>loop_ok\<close> interprets it on \<open>world_ok\<close>;
  \<open>no_enable\<close> is the invariant of a controller that never reports advertising as enabled.
\<close>

locale loop_invariant = request_invariant +
  assumes I_enqueue: "\<lbrakk> I w; server w = Some s; enqueue_notification c u bs s = Inr s' \<rbrakk>
      \<Longrightarrow> I (w\<lparr>server := Some s'\<rparr>)"
    and I_take: "\<lbrakk> I w; server w = Some s; take_pending h s = (n, s') \<rbrakk> \<Longrightarrow> I (w\<lparr>server := Some s'\<rparr>)"
    and I_report: "\<lbrakk> I w; server w = Some s \<rbrakk>
      \<Longrightarrow> I (w\<lparr>server := Some (report (NotificationFailed c status) s)\<rparr>)"
    and I_connection: "\<lbrakk> I w; connection_event kind h v w = (w', f) \<rbrakk> \<Longrightarrow> I w'"
    and I_pop: "\<lbrakk> I w; event_queue w = e # es \<rbrakk> \<Longrightarrow> I (w\<lparr>event_queue := es\<rparr>)"
    and I_transport: "\<lbrakk> I w; transport w = Some t; t_receive (env_transport env) t timeout = (t', r) \<rbrakk>
      \<Longrightarrow> I (w\<lparr>transport := Some t'\<rparr>)"
    and I_failure: "I w \<Longrightarrow> I (w\<lparr>failure := None\<rparr>)"
    and I_flag: "I w \<Longrightarrow> I (w\<lparr>shim := (shim w)\<lparr>advertising_requested := False\<rparr>\<rparr>)"
begin

lemma process_command_keeps: "\<lbrakk> I w; process_command env c rl w = (rl', w', f) \<rbrakk> \<Longrightarrow> I w'"
  by (auto simp: process_command_def intro!: rs_request_send_keeps intro: I_enqueue
      split: command.splits option.splits sum.splits)

lemma drain_commands_keeps: "\<lbrakk> I w; drain_commands env n ps rl w = (rl', w', f) \<rbrakk> \<Longrightarrow> I w'"
proof (induction n arbitrary: ps rl w)
  case 0
  then show ?case by simp
next
  case (Suc n)
  show ?case
  proof (cases "\<exists>c qs. ps = Received c # qs")
    case True
    then obtain c qs where ps: "ps = Received c # qs" by blast
    obtain rl1 w1 f1 where p: "process_command env c rl w = (rl1, w1, f1)"
      by (cases "process_command env c rl w") auto
    from process_command_keeps [OF Suc.prems(1) p] Suc.IH [of w1 qs rl1] Suc.prems(2) p ps
    show ?thesis by (cases f1) auto
  next
    case False
    with Suc.prems show ?thesis by (cases "(env, Suc n, ps, rl, w)" rule: drain_commands.cases) auto
  qed
qed

lemma receive_packet_keeps: "\<lbrakk> I w; receive_packet env w = (w', f) \<rbrakk> \<Longrightarrow> I w'"
  by (auto simp: receive_packet_def intro!: rs_receive_keeps intro: I_transport
      split: option.splits prod.splits outcome.splits sum.splits)

lemma poll_stack_keeps: "\<lbrakk> I w; poll_stack env w = (w', f) \<rbrakk> \<Longrightarrow> I w'"
  using rs_poll_keeps [of w]
  by (auto simp: poll_stack_def Let_def intro: I_failure split: option.splits)

lemma receive_and_poll_keeps: "\<lbrakk> I w; receive_and_poll env w = (w', f) \<rbrakk> \<Longrightarrow> I w'"
  by (auto simp: receive_and_poll_def dest: receive_packet_keeps poll_stack_keeps
      split: prod.splits flow.splits)

lemma send_notification_keeps: "\<lbrakk> I w; send_notification env h n w = (w', f) \<rbrakk> \<Longrightarrow> I w'"
proof -
  assume w: "I w" and s: "send_notification env h n w = (w', f)"
  obtain connection attribute bs where n: "n = (connection, attribute, bs)" by (cases n)
  obtain w1 status where r: "rs_notify env h attribute bs w = (w1, status)"
    by (cases "rs_notify env h attribute bs w")
  with rs_notify_keeps [OF w, of h attribute bs] s n show "I w'"
    by (auto simp: send_notification_def flow_of_def update_server_def intro: I_report
        split: if_splits option.splits)
qed

lemma flush_notification_keeps: "\<lbrakk> I w; flush_notification env h w = (w', f) \<rbrakk> \<Longrightarrow> I w'"
  by (auto simp: flush_notification_def intro!: rs_request_send_keeps
      intro: I_take send_notification_keeps [OF I_take]
      split: option.splits prod.splits flow.splits if_splits)

lemma handle_event_keeps: "\<lbrakk> I w; handle_event env e rl w = (rl', w', f) \<rbrakk> \<Longrightarrow> I w'"
  by (auto simp: handle_event_def dest: flush_notification_keeps I_connection
      split: prod.splits if_splits)

lemma drain_events_keeps: "\<lbrakk> I w; drain_events env rl w = (rl', w', f) \<rbrakk> \<Longrightarrow> I w'"
proof (induction "(pending_count w, length (event_queue w))" arbitrary: rl w
    rule: wf_induct_rule [OF wf_lex_prod [OF wf_less wf_less]])
  case 1
  show ?case
  proof (cases "event_queue w")
    case Nil
    with "1.prems" show ?thesis by (simp add: drain_events_Nil)
  next
    case (Cons e es)
    obtain rl1 w1 f1 where h: "handle_event env e rl (w\<lparr>event_queue := es\<rparr>) = (rl1, w1, f1)"
      by (cases "handle_event env e rl (w\<lparr>event_queue := es\<rparr>)") auto
    have w1: "I w1"
      using handle_event_keeps [OF I_pop h] "1.prems"(1) Cons by blast
    from handle_event_measure [OF h] Cons "1.hyps" [OF _ w1] w1 "1.prems"(2) h show ?thesis
      by (cases f1) (auto simp: drain_events_Cons le_less)
  qed
qed

lemma run_iteration_keeps: "\<lbrakk> I w; run_iteration env inp rl w = (rl', w', f) \<rbrakk> \<Longrightarrow> I w'"
  by (erule run_iteration_cases)
    (blast dest: drain_commands_keeps receive_and_poll_keeps drain_events_keeps)+

lemma run_keeps: "\<lbrakk> I w; run env inps rl w = (rl', w', f) \<rbrakk> \<Longrightarrow> I w'"
proof (induction inps arbitrary: rl w)
  case (Cons inp inps)
  obtain rl1 w1 f1 where i: "run_iteration env inp rl w = (rl1, w1, f1)"
    by (cases "run_iteration env inp rl w") auto
  from run_iteration_keeps [OF Cons.prems(1) i] Cons.IH [of w1 rl1] Cons.prems(2) i show ?case
    by (cases f1) auto
qed simp

lemma stop_loop_keeps: "\<lbrakk> I w; stop_loop env expired w = (w', f) \<rbrakk> \<Longrightarrow> I w'"
proof (induction expired arbitrary: w)
  case (Cons late rest)
  obtain w1 f1 where p: "receive_and_poll env w = (w1, f1)" by (cases "receive_and_poll env w")
  from receive_and_poll_keeps [OF Cons.prems(1) p] Cons.IH [of w1] Cons.prems p show ?case
    by (cases f1) (auto simp: stop_loop.simps [of env _ w] split: if_splits)
qed (auto simp: stop_loop.simps split: if_splits)

lemma stop_controller_keeps: "\<lbrakk> I w; stop_controller env expired w = (w', f) \<rbrakk> \<Longrightarrow> I w'"
  unfolding stop_controller_def rs_stop_def
  by (erule stop_loop_keeps [rotated]) (intro call_c_keeps I_flag)

end

section \<open>The well-formedness invariant\<close>

lemma world_ok_server: "\<lbrakk> world_ok w; state_ok s \<rbrakk> \<Longrightarrow> world_ok (w\<lparr>server := Some s\<rparr>)"
  by (simp add: world_ok_def)

lemma world_ok_state: "\<lbrakk> world_ok w; server w = Some s \<rbrakk> \<Longrightarrow> state_ok s"
  by (simp add: world_ok_def)

interpretation loop_ok: loop_invariant env "\<lambda>_ _ _. True" world_ok for env
proof (unfold_locales, goal_cases)
  case (1 w s c u bs s')
  then show ?case by (metis world_ok_state world_ok_server state_ok_enqueue)
next
  case (2 w s h n s')
  then show ?case by (metis world_ok_state world_ok_server state_ok_take_pending)
next
  case (3 w s ev)
  then show ?case by (metis world_ok_state world_ok_server state_ok_report)
next
  case (4 w kind h v w' f)
  then show ?case by (auto dest: connection_event_ok)
next
  case (8 w)
  then show ?case by (simp add: world_ok_def bridge_ok_def busy_handles_def)
qed simp_all

section \<open>An invariant of the transport\<close>

lemma connection_event_transport:
  assumes "connection_event kind h v w = (w', f)"
  shows "transport w' = transport w"
  using assms by (auto simp: connection_event_def split: option.splits if_splits)

text \<open>
  What \<^verbatim>\<open>send\<close> and \<^verbatim>\<open>receive\<close> of an implementation of \<^verbatim>\<open>HciTransport\<close> keep of its own state
  holds throughout the loops: nothing else reaches the transport.
\<close>

locale transport_invariant =
  fixes env :: "('t, 'b) env" and P :: "'t \<Rightarrow> bool"
  assumes P_send: "\<lbrakk> P t; t_send (env_transport env) t kind packet = (t', r) \<rbrakk> \<Longrightarrow> P t'"
    and P_receive: "\<lbrakk> P t; t_receive (env_transport env) t n = (t', p) \<rbrakk> \<Longrightarrow> P t'"

definition transport_keeps :: "('t \<Rightarrow> bool) \<Rightarrow> ('t, 'b, 'w) world \<Rightarrow> bool" where
  "transport_keeps P w \<longleftrightarrow> (case transport w of None \<Rightarrow> True | Some t \<Rightarrow> P t)"

lemma transport_keeps_cong: "transport w' = transport w \<Longrightarrow> transport_keeps P w' = transport_keeps P w"
  by (simp add: transport_keeps_def)

sublocale transport_invariant \<subseteq> loop_invariant env "\<lambda>_ _ _. True" "transport_keeps P"
proof (unfold_locales, goal_cases)
  case (5 w kind packet)
  then show ?case
    by (auto simp: send_packet_def transport_send_def transport_keeps_def
        split: option.splits prod.splits outcome.splits sum.splits intro: P_send)
next
  case (13 w kind h v w' f)
  then show ?case using connection_event_transport [of kind h v w w' f]
    by (simp add: transport_keeps_cong [of w' w])
next
  case (15 w t n t' r)
  then show ?case by (auto simp: transport_keeps_def intro: P_receive)
qed (simp_all add: transport_keeps_def)

section \<open>A controller that never enables advertising\<close>

text \<open>
  The report that makes a server ready: a command-complete event for LE Set Advertising Enable
  (opcode 0x200a) with status 0.
\<close>

definition reports_enabled :: "'b btstack \<Rightarrow> u8 \<Rightarrow> bytes \<Rightarrow> u16 \<Rightarrow> bool" where
  "reports_enabled bt type packet sz \<longleftrightarrow>
     type = HCI_EVENT_PACKET bt \<and> packet ! 0 = HCI_EVENT_COMMAND_COMPLETE bt \<and> 6 \<le> sz
     \<and> little_endian_read_16 bt packet 3 = 0x200a \<and> packet ! 5 = 0"

definition never_enables :: "('t, 'b) env \<Rightarrow> bool" where
  "never_enables env \<longleftrightarrow>
     (\<forall>call b. emits_only (\<lambda>type packet sz. \<not> reports_enabled (env_btstack env) type packet sz)
        (bt_call (env_btstack env) call b))"

definition no_enable :: "('t, 'b, 'w) world \<Rightarrow> bool" where
  "no_enable w \<longleftrightarrow> list_all (\<lambda>(kind, h, v). kind = 2 \<longrightarrow> v \<noteq> 0) (event_queue w)"

lemma ucast_u8_u16_eq_0: "(ucast (b :: u8) :: u16) = 0 \<longleftrightarrow> b = 0"
  by transfer (simp add: take_bit_take_bit)

lemma no_enable_event:
  assumes "no_enable w" and "\<not> reports_enabled (env_btstack env) type packet sz"
  shows "no_enable (do_event env type packet sz m w)"
  using assms
  by (auto simp: no_enable_def do_event_def event_handler_def command_complete_def rust_event_def
      reports_enabled_def Let_def ucast_u8_u16_eq_0)

lemma no_enable_can_send: "no_enable w \<Longrightarrow> no_enable (do_can_send i w)"
  by (auto simp: no_enable_def do_can_send_def can_send_def rust_event_def)

lemma no_enable_cong: "event_queue w' = event_queue w \<Longrightarrow> no_enable w' = no_enable w"
  by (simp add: no_enable_def)

lemma no_enable_invariant:
  assumes "never_enables env"
  shows "loop_invariant env (\<lambda>type packet sz. \<not> reports_enabled (env_btstack env) type packet sz)
    no_enable"
proof (unfold_locales, goal_cases)
  case (1 call b)
  then show ?case using assms by (simp add: never_enables_def)
next
  case (6 w type packet sz m)
  then show ?case by (rule no_enable_event)
next
  case (7 w i)
  then show ?case by (rule no_enable_can_send)
next
  case (13 w kind h v w' f)
  then show ?case using connection_event_measure [of kind h v w w' f]
    by (simp add: no_enable_cong [of w' w])
next
  case (14 w e es)
  then show ?case by (simp add: no_enable_def)
qed (simp_all add: no_enable_def)

end
