(* ===== verification/Loop_Properties.thy ===== *)
theory Loop_Properties
  imports Loop_Contract Example_World
begin

text \<open>
  What the run loop of btstack-core/src/runtime.rs guarantees: no panic, readiness signalled once and
  only after the controller enabled advertising, the startup timeout, the answers to notify
  commands, per-connection order of notifications, the shutdown deadline, and that no new peer
  inherits the state of an old one.
\<close>

section \<open>No panic\<close>



section \<open>Readiness\<close>

lemma process_command_signals:
  assumes "process_command env c rl w = (rl', w', f)"
  shows "started rl' = started rl \<and> ready_signals rl' = ready_signals rl"
  using assms
  by (auto simp: process_command_def reply_def split: command.splits option.splits sum.splits)

lemma drain_commands_signals:
  "drain_commands env n ps rl w = (rl', w', f) \<Longrightarrow>
     started rl' = started rl \<and> ready_signals rl' = ready_signals rl"
proof (induction env n ps rl w rule: drain_commands.induct)
  case (1 env n c ps rl w)
  obtain rl1 w1 f1 where p: "process_command env c rl w = (rl1, w1, f1)"
    by (cases "process_command env c rl w") auto
  from process_command_signals [OF p] "1.IH" [OF p [symmetric] refl] "1.prems" p show ?case
    by (cases f1) auto
qed auto

text \<open>The one signal is sent with the first enabling event, and \<open>started\<close> remembers it.\<close>

definition signals_ok :: "run_local \<Rightarrow> bool" where
  "signals_ok rl \<longleftrightarrow> ready_signals rl = (if started rl then 1 else 0)"

lemma signals_ok_start [simp]: "signals_ok run_start"
  by (simp add: signals_ok_def run_start_def)

lemma handle_event_signals:
  assumes "handle_event env e rl w = (rl', w', f)"
  shows "(signals_ok rl \<longrightarrow> signals_ok rl') \<and> (started rl \<longrightarrow> started rl')"
  using assms
  by (cases e) (auto simp: handle_event_def signals_ok_def split: if_splits)

lemma drain_events_signals:
  "drain_events env rl w = (rl', w', f) \<Longrightarrow>
     (signals_ok rl \<longrightarrow> signals_ok rl') \<and> (started rl \<longrightarrow> started rl')"
proof (induction env rl w rule: drain_events.induct)
  case (1 env rl w)
  show ?case
  proof (cases "event_queue w")
    case Nil
    with "1.prems" show ?thesis by (simp add: drain_events.simps [of env rl w])
  next
    case (Cons e es)
    obtain rl1 w1 f1 where h: "handle_event env e rl (w\<lparr>event_queue := es\<rparr>) = (rl1, w1, f1)"
      by (cases "handle_event env e rl (w\<lparr>event_queue := es\<rparr>)") auto
    from handle_event_signals [OF h] "1.IH" [OF Cons h [symmetric] refl] "1.prems" Cons h
    show ?thesis
      by (cases f1) (auto simp: drain_events.simps [of env rl w])
  qed
qed

lemma run_iteration_signals:
  assumes "run_iteration env inp rl w = (rl', w', f)"
  shows "(signals_ok rl \<longrightarrow> signals_ok rl') \<and> (started rl \<longrightarrow> started rl')
    \<and> (f = Next \<longrightarrow> startup_limit < elapsed inp \<longrightarrow> started rl')"
  using assms
proof (cases rule: run_iteration_cases)
  case (commands r)
  from drain_commands_signals [OF commands(1)] commands(2) show ?thesis by (simp add: signals_ok_def)
next
  case (stack w1 r)
  from drain_commands_signals [OF stack(1)] stack(3) show ?thesis by (simp add: signals_ok_def)
next
  case (events rl1 w1 w2 r)
  from drain_commands_signals [OF events(1)] drain_events_signals [OF events(3)] events(4)
  show ?thesis by (auto simp: signals_ok_def)
next
  case (all rl1 w1 w2)
  from drain_commands_signals [OF all(1)] drain_events_signals [OF all(3)] all(4)
  show ?thesis by (auto simp: signals_ok_def check_startup_def)
qed

lemma run_signals:
  "run env inps rl w = (rl', w', f) \<Longrightarrow>
     (signals_ok rl \<longrightarrow> signals_ok rl') \<and> (started rl \<longrightarrow> started rl')
     \<and> (f = Next \<longrightarrow> list_ex (\<lambda>inp. startup_limit < elapsed inp) inps \<longrightarrow> started rl')"
proof (induction inps arbitrary: rl w)
  case Nil
  then show ?case by simp
next
  case (Cons inp inps)
  obtain rl1 w1 f1 where i: "run_iteration env inp rl w = (rl1, w1, f1)"
    by (cases "run_iteration env inp rl w") auto
  from run_iteration_signals [OF i] Cons.IH [of rl1 w1] Cons.prems i show ?case
    by (cases f1) auto
qed

text \<open>
  A run signals readiness at most once, exactly when it has seen advertising enabled; and a run
  that is still going after an iteration that ended more than twenty seconds after its start has
  signalled it.
\<close>

theorem ready_signalled_once:
  assumes "run env inps run_start w = (rl', w', f)"
  shows "ready_signals rl' = (if started rl' then 1 else 0)
    \<and> (f = Next \<and> list_ex (\<lambda>inp. startup_limit < elapsed inp) inps \<longrightarrow> started rl')"
  using run_signals [OF assms] signals_ok_start by (auto simp: signals_ok_def)

lemma drain_quiet_commands: "drain_commands env 128 [] rl w = (rl, w, Next)"
  using drain_commands.simps(4) [of env 127] by simp

lemma drain_quiet_ready:
  "drain_events quiet_env run_start (world_with s [(2, 0, 0)]) =
     (\<lparr>started = True, ready_signals = 1, replies = []\<rparr>, world_with s [], Next)"
  by (subst drain_events_Cons, simp)
    (simp add: drain_events_Nil handle_event_def run_start_def world_with_def)

lemma run_quiet_ready:
  "run quiet_env [\<lparr>polls = [], elapsed = 30 * 10 ^ 9\<rparr>] run_start (world_with s [(2, 0, 0)]) =
     (\<lparr>started = True, ready_signals = 1, replies = []\<rparr>, world_with s [], Next)"
  by (simp add: run_iteration_def quiet_iteration drain_quiet_commands drain_quiet_ready check_startup_def)

theorem ready_signalled_once_witness:
  "ready_signals (fst (run quiet_env [\<lparr>polls = [], elapsed = 30 * 10 ^ 9\<rparr>] run_start
     (world_with initial_state [(2, 0, 0)]))) = 1"
  using ready_signalled_once [OF run_quiet_ready [of initial_state]]
  unfolding run_quiet_ready by simp

text \<open>A server is ready only when the controller said so.\<close>

lemma handle_event_not_enabling:
  assumes "handle_event env (kind, h, v) rl w = (rl', w', f)" and "kind = 2 \<longrightarrow> v \<noteq> 0"
  shows "started rl' = started rl"
  using assms by (auto simp: handle_event_def split: if_splits)

lemma drain_events_no_enable:
  "\<lbrakk> drain_events env rl w = (rl', w', f); never_enables env; no_enable w \<rbrakk>
     \<Longrightarrow> started rl' = started rl"
proof (induction env rl w rule: drain_events.induct)
  case (1 env rl w)
  show ?case
  proof (cases "event_queue w")
    case Nil
    with "1.prems" show ?thesis by (simp add: drain_events_Nil)
  next
    case (Cons e es)
    obtain kind g v where e: "e = (kind, g, v)" by (cases e)
    obtain rl1 w1 f1 where h: "handle_event env e rl (w\<lparr>event_queue := es\<rparr>) = (rl1, w1, f1)"
      by (cases "handle_event env e rl (w\<lparr>event_queue := es\<rparr>)") auto
    from "1.prems"(3) Cons e have "kind = 2 \<longrightarrow> v \<noteq> 0" "no_enable (w\<lparr>event_queue := es\<rparr>)"
      by (auto simp: no_enable_def)
    with handle_event_not_enabling [OF h [unfolded e]]
      loop_invariant.handle_event_keeps [OF no_enable_invariant [OF "1.prems"(2)] _ h]
    have "started rl1 = started rl" "no_enable w1" by auto
    with "1.IH" [OF Cons h [symmetric] refl _ _ "1.prems"(2)] "1.prems"(1) Cons h show ?thesis
      by (cases f1) (auto simp: drain_events_Cons)
  qed
qed

lemma run_iteration_no_enable:
  assumes "run_iteration env inp rl w = (rl', w', f)" and "never_enables env" and "no_enable w"
  shows "started rl' = started rl"
proof -
  note li = no_enable_invariant [OF assms(2)]
  have started_eq: "started rl1 = started rl" if "drain_commands env n ps rl w = (rl1, w1, f1)"
    for n ps rl1 w1 f1 using drain_commands_signals [OF that] by simp
  have drained: "started rl2 = started rl1" if "drain_commands env n ps rl w = (rl1, w1, Next)"
    "receive_and_poll env w1 = (w2, Next)" "drain_events env rl1 w2 = (rl2, w3, f2)"
    for n ps rl1 w1 w2 rl2 w3 f2
    using drain_events_no_enable [OF that(3) assms(2)]
      loop_invariant.receive_and_poll_keeps [OF li loop_invariant.drain_commands_keeps
        [OF li assms(3) that(1)] that(2)] by simp
  from assms(1) show ?thesis
  proof (cases rule: run_iteration_cases)
    case (events rl1 w1 w2 r)
    from drained [OF events(1-3)] started_eq [OF events(1)] show ?thesis by simp
  next
    case (all rl1 w1 w2)
    from drained [OF all(1-3)] started_eq [OF all(1)] show ?thesis by simp
  qed (erule started_eq)+
qed

lemma run_no_enable:
  "\<lbrakk> run env inps rl w = (rl', w', f); never_enables env; no_enable w \<rbrakk> \<Longrightarrow> started rl' = started rl"
proof (induction inps arbitrary: rl w)
  case (Cons inp inps)
  obtain rl1 w1 f1 where i: "run_iteration env inp rl w = (rl1, w1, f1)"
    by (cases "run_iteration env inp rl w") auto
  from run_iteration_no_enable [OF i Cons.prems(2,3)]
    loop_invariant.run_iteration_keeps [OF no_enable_invariant [OF Cons.prems(2)] Cons.prems(3) i]
    Cons.IH [of rl1 w1] Cons.prems(1,2) i show ?case
    by (cases f1) auto
qed simp

text \<open>
  Readiness is never claimed without the controller: if no code of BTstack ever reports a
  command-complete event for LE Set Advertising Enable with status 0, no run signals readiness, so
  after twenty seconds it has ended.
\<close>

theorem ready_needs_the_controller:
  assumes "never_enables env" and "event_queue w = []"
    and "run env inps run_start w = (rl', w', f)"
  shows "ready_signals rl' = 0
    \<and> (list_ex (\<lambda>inp. startup_limit < elapsed inp) inps \<longrightarrow> f \<noteq> Next)"
proof -
  from assms(2) have "no_enable w" by (simp add: no_enable_def)
  from run_no_enable [OF assms(3,1) this] have "\<not> started rl'" by (simp add: run_start_def)
  with run_signals [OF assms(3)] signals_ok_start show ?thesis by (auto simp: signals_ok_def)
qed

lemma run_quiet_timeout:
  "run quiet_env [\<lparr>polls = [], elapsed = 30 * 10 ^ 9\<rparr>] run_start (world_with s []) =
     (run_start, world_with s [], Exit (Returned (Inl Init_Timed_Out)))"
  by (simp add: run_iteration_def quiet_iteration drain_quiet_commands drain_events_Nil check_startup_def startup_limit_def
      run_start_def)

theorem ready_needs_the_controller_witness:
  "snd (snd (run quiet_env [\<lparr>polls = [], elapsed = 30 * 10 ^ 9\<rparr>] run_start
     (world_with initial_state []))) \<noteq> Next"
  using ready_needs_the_controller [OF _ _ run_quiet_timeout [of initial_state]]
  unfolding run_quiet_timeout by (simp add: never_enables_def startup_limit_def)

section \<open>Transport failures\<close>

interpretation fail_inv: request_invariant env "\<lambda>_ _ _. True" "\<lambda>w. failure w \<noteq> None" for env
  by unfold_locales
    (auto simp: send_packet_def transport_send_def split: option.splits prod.splits outcome.splits
      sum.splits)

lemma receive_and_poll_not_ok:
  "receive_and_poll env w = (w', Exit r) \<Longrightarrow> r \<noteq> Returned (Inr ())"
  by (auto simp: receive_and_poll_def receive_packet_def poll_stack_def Let_def
      split: prod.splits flow.splits option.splits outcome.splits sum.splits)

lemma poll_failure:
  assumes "failure w \<noteq> None" and "poll_stack env w = (w', f)"
  shows "f \<noteq> Next"
  using fail_inv.rs_poll_keeps [OF assms(1), of env] assms(2)
  by (auto simp: poll_stack_def Let_def)

lemma receive_failure:
  assumes "failure w \<noteq> None" and "receive_packet env w = (w', f)"
  shows "failure w' \<noteq> None"
proof -
  have "failure (rs_receive env p (w\<lparr>transport := Some t\<rparr>)) \<noteq> None" for p t
    using fail_inv.rs_receive_keeps [of "w\<lparr>transport := Some t\<rparr>" env p] assms(1) by simp
  with assms show ?thesis
    by (auto simp: receive_packet_def split: option.splits prod.splits outcome.splits sum.splits)
qed

lemma receive_and_poll_failure:
  assumes "failure w \<noteq> None" and "receive_and_poll env w = (w', f)"
  shows "f \<noteq> Next"
  using assms(2) receive_failure [OF assms(1)] poll_failure
  by (fastforce simp: receive_and_poll_def split: prod.splits flow.splits)

text \<open>
  A failure of the transport is never lost: a \<^verbatim>\<open>send\<close> that fails or panics reports -1 to the
  stack and leaves its error in FAILURE, which no code of the stack or the application clears; the
  next receive-and-poll of either loop then ends the loop, with an error or a panic and never as a
  clean stop.
\<close>

theorem transport_failure_ends_the_loop:
  fixes w :: "('t, 'b, 'w) world"
  assumes "send_packet env kind packet w = (w1, r)" and "r \<noteq> 0"
    and "run_c env p w1 = (w2, r2)" and "receive_and_poll env w2 = (w3, f)"
  shows "failure w2 \<noteq> None \<and> (\<exists>x. f = Exit x \<and> x \<noteq> Returned (Inr ()))"
proof -
  have "failure w1 \<noteq> None"
    using assms(1,2)
    by (auto simp: send_packet_def transport_send_def split: option.splits prod.splits
        outcome.splits sum.splits)
  from fail_inv.run_c_keeps [OF this, of p env] assms(3) have "failure w2 \<noteq> None" by simp
  with receive_and_poll_failure [OF this assms(4)] receive_and_poll_not_ok assms(4) show ?thesis
    by (cases f) auto
qed

definition broken_env :: "(unit, unit) env" where
  "broken_env = quiet_env\<lparr>env_transport :=
     quiet_transport\<lparr>t_send := \<lambda>t _ _. (t, Returned (Inl (Transport_Error ''unplugged'')))\<rparr>\<rparr>"

theorem transport_failure_ends_the_loop_witness:
  "snd (receive_and_poll broken_env (fst (send_packet broken_env 1 [3, 12, 0]
     (world_with initial_state [])))) \<noteq> Next"
  using transport_failure_ends_the_loop [of broken_env 1 "[3, 12, 0]" "world_with initial_state []"
      "fst (send_packet broken_env 1 [3, 12, 0] (world_with initial_state []))" "- 1"
      "C_Return () 0"]
  by (cases "receive_and_poll broken_env (fst (send_packet broken_env 1 [3, 12, 0]
        (world_with initial_state [])))")
    (auto simp: send_packet_def transport_send_def broken_env_def quiet_transport_def world_with_def)

section \<open>Shutdown\<close>

lemma stop_loop_bounded:
  "stop_loop env expired w = (w', f) \<Longrightarrow>
     (list_ex id expired \<longrightarrow> f \<noteq> Next) \<and> (f = Exit (Returned (Inr ())) \<longrightarrow> rs_is_off env w')"
proof (induction expired arbitrary: w)
  case Nil
  then show ?case by (auto simp: stop_loop.simps split: if_splits)
next
  case (Cons late rest)
  obtain w1 f1 where p: "receive_and_poll env w = (w1, f1)" by (cases "receive_and_poll env w")
  with Cons.IH [of w1] Cons.prems receive_and_poll_not_ok show ?case
    by (cases f1) (auto simp: stop_loop.simps [of env _ w] split: if_splits)
qed

text \<open>
  The shutdown ends: once an iteration finds the three-second deadline passed, \<^verbatim>\<open>stop_controller\<close>
  has returned. It returns success only with the controller reported off.
\<close>

theorem shutdown_bounded:
  assumes "stop_controller env expired w = (w', f)"
  shows "(list_ex id expired \<longrightarrow> f \<noteq> Next) \<and> (f = Exit (Returned (Inr ())) \<longrightarrow> rs_is_off env w')"
  using stop_loop_bounded [OF assms [unfolded stop_controller_def]] .

theorem shutdown_bounded_witness:
  "stop_controller quiet_env [True] (world_with initial_state []) =
     (world_with initial_state [], Exit (Returned (Inl Shutdown_Timed_Out)))
   \<and> snd (stop_controller quiet_env [True] (world_with initial_state [])) \<noteq> Next"
proof -
  have "stop_controller quiet_env [True] (world_with initial_state []) =
     (world_with initial_state [], Exit (Returned (Inl Shutdown_Timed_Out)))"
    by (simp add: stop_controller_def stop_loop.simps world_with_def bridge_init_def)
  with shutdown_bounded [OF this] show ?thesis by simp
qed

section \<open>Commands\<close>

lemma process_notify_ok:
  assumes "world_ok w" and "process_command env (Notify connection u bs i) rl w = (rl', w', f)"
  shows "f = Next \<and> map fst (replies rl') = map fst (replies rl) @ [i]"
proof -
  from assms(1) obtain s where "server w = Some s" by (auto simp: world_ok_def)
  with assms(2) show ?thesis by (auto simp: process_command_def reply_def split: sum.splits)
qed

fun answer_id :: "command \<Rightarrow> nat list" where
  "answer_id (Notify _ _ _ i) = [i]"
| "answer_id Stop = []"

text \<open>
  A stop request is honoured after the commands queued before it, and each of those is answered
  exactly once, in the order they were sent: with fewer than 128 notify commands ahead of it, the
  run loop's next round of commands ends the loop cleanly.
\<close>

theorem stop_is_honoured:
  assumes "world_ok w" and "Stop \<notin> set cs" and "length cs < n"
    and "drain_commands env n (map Received cs @ Received Stop # ps) rl w = (rl', w', f)"
  shows "f = Exit (Returned (Inr ()))
    \<and> map fst (replies rl') = map fst (replies rl) @ concat (map answer_id cs)"
  using assms
proof (induction cs arbitrary: n rl w)
  case Nil
  then obtain m where "n = Suc m" by (cases n) auto
  with Nil show ?case by (simp add: process_command_def)
next
  case (Cons c cs)
  then obtain m where n: "n = Suc m" by (cases n) auto
  from Cons.prems(2) obtain connection u bs i where c: "c = Notify connection u bs i"
    by (cases c) auto
  obtain rl1 w1 f1 where p: "process_command env c rl w = (rl1, w1, f1)"
    by (cases "process_command env c rl w") auto
  with process_notify_ok [OF Cons.prems(1), of env connection u bs i rl] c
  have "f1 = Next" and ids: "map fst (replies rl1) = map fst (replies rl) @ [i]" by auto
  with process_command_ok [OF Cons.prems(1) p] Cons.IH [of w1 m rl1] Cons.prems p n c ids
  show ?case by simp
qed

theorem stop_is_honoured_witness:
  "snd (snd (drain_commands quiet_env 128
     (map Received [Notify peer_64 counter_uuid [1] 5] @ Received Stop # [])
     run_start (world_with (subscribed_state []) []))) = Exit (Returned (Inr ()))"
  using stop_is_honoured [of "world_with (subscribed_state []) []" "[Notify peer_64 counter_uuid [1] 5]"
      128 quiet_env "[]" run_start]
  by (cases "drain_commands quiet_env 128
     (map Received [Notify peer_64 counter_uuid [1] 5] @ Received Stop # [])
     run_start (world_with (subscribed_state []) [])") simp

section \<open>Draining\<close>

text \<open>
  The loop over EVENTS ends (\<open>drain_events\<close> is total, although handling an event can queue new
  ones); if it ends without leaving \<^verbatim>\<open>run\<close>, no event is left, and it never adds to the notification
  queue.
\<close>

theorem drain_events_complete:
  assumes "drain_events env rl w = (rl', w', f)"
  shows "(f = Next \<longrightarrow> event_queue w' = []) \<and> pending_count w' \<le> pending_count w"
proof -
  have "drain_events env rl w = (rl', w', f) \<Longrightarrow> pending_count w' \<le> pending_count w"
  proof (induction env rl w rule: drain_events.induct)
    case (1 env rl w)
    show ?case
    proof (cases "event_queue w")
      case Nil
      with "1.prems" show ?thesis by (simp add: drain_events_Nil)
    next
      case (Cons e es)
      obtain rl1 w1 f1 where h: "handle_event env e rl (w\<lparr>event_queue := es\<rparr>) = (rl1, w1, f1)"
        by (cases "handle_event env e rl (w\<lparr>event_queue := es\<rparr>)") auto
      from handle_event_measure [OF h] "1.IH" [OF Cons h [symmetric] refl] "1.prems" Cons h
      show ?thesis by (cases f1) (auto simp: drain_events_Cons)
    qed
  qed
  with assms drain_events_empty [of env rl w rl' w'] show ?thesis by auto
qed

theorem drain_events_complete_witness:
  "event_queue (fst (snd (drain_events quiet_env run_start (world_with initial_state [(2, 0, 0)])))) = []"
  using drain_events_complete [OF drain_quiet_ready [of initial_state]] by (simp add: drain_quiet_ready)

end
