(* ===== verification/Wakeup.thy ===== *)
theory Wakeup
  imports Peer_Properties Loop_Properties
begin

text \<open>
  No notification is forgotten. Three queues meet here: the pending notifications of the server state,
  the send requests of the shim, and the events between them. The invariant \<open>wakes\<close> says that a
  connection with a pending notification has a request outstanding with BTstack, or an event queued
  that will flush or drop its notifications. It is broken and restored within a step of the loop, so it
  names the handles excepted. It needs what the shim's table needs: connections on at most sixteen
  handles, and a stack that accepts each request.
\<close>

section \<open>The hypotheses on the stack\<close>







section \<open>The invariant\<close>











section \<open>Callbacks\<close>







section \<open>The steps of the loop\<close>










section \<open>Events\<close>












section \<open>Properties\<close>






end
