(* ===== verification/Nusb.thy ===== *)
theory Nusb
  imports Loop_Contract Example_World "HOL-Library.Sublist"
begin

text \<open>
  btstack-nusb/src/lib.rs: the choice of the USB device, the discovery of its endpoints, the receive
  worker and the transport's \<^verbatim>\<open>send\<close>, \<^verbatim>\<open>receive\<close> and \<^verbatim>\<open>drop\<close>. The nusb crate is a
  parameter: what its transfers return is the record \<open>nusb\<close>. The worker is a thread beside the stack
  thread; \<open>usb_run\<close> interleaves its rounds with the receives.
\<close>

section \<open>Errors\<close>

datatype usb_error =
    Device_Not_Found u16 u16
  | Multiple_Devices u16 u16
  | Missing_Alternate_Setting
  | Missing_Interrupt_In
  | Missing_Bulk_In
  | Missing_Bulk_Out
  | Acl_Out_Timeout
  | Short_Acl_Out
  | Unsupported_Kind
  | Worker_Stopped
  | Android_Needs_Fd
  | Nusb_Error string

text \<open>The \<^verbatim>\<open>{:04x}\<close> of the messages.\<close>

definition hex4 :: "u16 \<Rightarrow> string" where
  "hex4 w = map (\<lambda>i. ''0123456789abcdef'' ! (unat (drop_bit (4 * i) w) mod 16)) [3, 2, 1, 0]"

text \<open>The message a transport error carries to the runtime.\<close>

fun usb_message :: "usb_error \<Rightarrow> string" where
  "usb_message (Device_Not_Found v p) =
     ''USB Bluetooth controller '' @ hex4 v @ '':'' @ hex4 p @ '' not found''"
| "usb_message (Multiple_Devices v p) =
     ''Multiple USB devices match '' @ hex4 v @ '':'' @ hex4 p
       @ ''; select one explicitly and use NusbHciTransport::from_device''"
| "usb_message Missing_Alternate_Setting = ''Missing interface 0 alternate setting 0''"
| "usb_message Missing_Interrupt_In = ''Missing interrupt IN endpoint''"
| "usb_message Missing_Bulk_In = ''Missing bulk IN endpoint''"
| "usb_message Missing_Bulk_Out = ''Missing bulk OUT endpoint''"
| "usb_message Acl_Out_Timeout = ''ACL OUT timeout''"
| "usb_message Short_Acl_Out = ''Short ACL OUT transfer''"
| "usb_message Unsupported_Kind = ''Unsupported HCI packet type''"
| "usb_message Worker_Stopped = ''USB receive worker stopped (device removed or queue overflow)''"
| "usb_message Android_Needs_Fd =
     ''Android requires a UsbManager file descriptor; use NusbHciTransport::from_fd or from_borrowed_fd''"
| "usb_message (Nusb_Error m) = m"

section \<open>Selecting the device\<close>

record usb_device_selector =
  vendor_id :: u16
  product_id :: u16

definition selector_new :: "u16 \<Rightarrow> u16 \<Rightarrow> usb_device_selector" where
  "selector_new v p = \<lparr>vendor_id = v, product_id = p\<rparr>"

text \<open>A device as the enumeration lists it, with whatever opens it.\<close>

record 'd usb_device_info =
  info_vendor :: u16
  info_product :: u16
  info_device :: 'd

definition matches_selector :: "usb_device_selector \<Rightarrow> 'd usb_device_info \<Rightarrow> bool" where
  "matches_selector sel d \<longleftrightarrow> info_vendor d = vendor_id sel \<and> info_product d = product_id sel"

definition select_device ::
  "usb_device_selector \<Rightarrow> 'd usb_device_info list \<Rightarrow> usb_error + 'd usb_device_info" where
  "select_device sel ds =
     (case filter (matches_selector sel) ds of
        [] \<Rightarrow> Inl (Device_Not_Found (vendor_id sel) (product_id sel))
      | [d] \<Rightarrow> Inr d
      | _ \<Rightarrow> Inl (Multiple_Devices (vendor_id sel) (product_id sel)))"

section \<open>Discovering the endpoints\<close>

datatype transfer_type = Control | Isochronous | Bulk | Interrupt

record endpoint =
  ep_address :: u8
  ep_type :: transfer_type

definition is_in :: "endpoint \<Rightarrow> bool" where
  "is_in ep \<longleftrightarrow> ep_address ep AND 0x80 \<noteq> 0"

record endpoints =
  event_in :: "u8 option"
  acl_in :: "u8 option"
  acl_out :: "u8 option"

definition no_endpoints :: endpoints where
  "no_endpoints = \<lparr>event_in = None, acl_in = None, acl_out = None\<rparr>"

text \<open>The loop over the descriptor: a later endpoint of the same role replaces an earlier one.\<close>

definition note_endpoint :: "endpoint \<Rightarrow> endpoints \<Rightarrow> endpoints" where
  "note_endpoint ep e =
     (case (ep_type ep, is_in ep) of
        (Interrupt, True) \<Rightarrow> e\<lparr>event_in := Some (ep_address ep)\<rparr>
      | (Bulk, True) \<Rightarrow> e\<lparr>acl_in := Some (ep_address ep)\<rparr>
      | (Bulk, False) \<Rightarrow> e\<lparr>acl_out := Some (ep_address ep)\<rparr>
      | _ \<Rightarrow> e)"

definition discover :: "endpoint list option \<Rightarrow> usb_error + u8 \<times> u8 \<times> u8" where
  "discover alternate_0 =
     and_then (ok_or Missing_Alternate_Setting alternate_0) (\<lambda>eps.
       let e = fold note_endpoint eps no_endpoints
       in and_then (ok_or Missing_Interrupt_In (event_in e)) (\<lambda>event.
          and_then (ok_or Missing_Bulk_In (acl_in e)) (\<lambda>input.
          and_then (ok_or Missing_Bulk_Out (acl_out e)) (\<lambda>output.
            Inr (event, input, output)))))"

section \<open>The receive worker\<close>

text \<open>
  One transfer is kept submitted per IN endpoint: \<open>wait_next_complete\<close> of nusb panics when none is
  pending, so the counts are part of the state. \<open>rx_alive\<close> is false once the closure has returned.
\<close>

type_synonym completion = "(string + bytes) option"

record rx_worker =
  rx_channel :: "(usb_error + hci_packet) channel"
  rx_alive :: bool
  event_transfers :: nat
  acl_transfers :: nat

definition rx_start :: rx_worker where
  "rx_start =
     \<lparr>rx_channel = sync_channel 256, rx_alive = True, event_transfers = 1, acl_transfers = 1\<rparr>"

text \<open>The closure returns and drops its sender.\<close>

definition rx_return :: "rx_worker \<Rightarrow> rx_worker" where
  "rx_return x = x\<lparr>rx_channel := drop_sender (rx_channel x), rx_alive := False\<rparr>"

definition rx_resubmit :: "u8 \<Rightarrow> rx_worker \<Rightarrow> rx_worker" where
  "rx_resubmit kind x =
     (if kind = 4 then x\<lparr>event_transfers := event_transfers x + 1\<rparr>
      else x\<lparr>acl_transfers := acl_transfers x + 1\<rparr>)"

definition rx_complete :: "u8 \<Rightarrow> completion \<Rightarrow> rx_worker \<Rightarrow> rx_worker" where
  "rx_complete kind c x =
     (case c of
        None \<Rightarrow> x
      | Some (Inl e) \<Rightarrow>
          rx_return (x\<lparr>rx_channel := send_ignored (Inl (Nusb_Error e)) (rx_channel x)\<rparr>)
      | Some (Inr d) \<Rightarrow>
          if d \<noteq> []
          then (case try_send (Inr \<lparr>pkt_kind = kind, pkt_data = d\<rparr>) (rx_channel x) of
                  (Inl _, ch) \<Rightarrow> rx_return (x\<lparr>rx_channel := ch\<rparr>)
                | (Inr _, ch) \<Rightarrow> rx_resubmit kind (x\<lparr>rx_channel := ch\<rparr>))
          else rx_resubmit kind x)"

text \<open>
  The two waits of a round, evaluated before either completion is handled: a completion takes one
  transfer off its endpoint. A wait without a transfer panics.
\<close>

definition rx_wait :: "completion \<times> completion \<Rightarrow> rx_worker \<Rightarrow> rx_worker outcome" where
  "rx_wait r x =
     (case r of (e, a) \<Rightarrow>
        if event_transfers x = 0 \<or> acl_transfers x = 0 then Panicked
        else Returned (x\<lparr>event_transfers := event_transfers x - (if e = None then 0 else 1),
                         acl_transfers := acl_transfers x - (if a = None then 0 else 1)\<rparr>))"

text \<open>One iteration of the worker's loop; \<open>stopped\<close> is the flag it loads first.\<close>

definition rx_round :: "bool \<Rightarrow> completion \<times> completion \<Rightarrow> rx_worker \<Rightarrow> rx_worker" where
  "rx_round stopped r x =
     (if \<not> rx_alive x then x
      else if stopped then rx_return (x\<lparr>event_transfers := 0, acl_transfers := 0\<rparr>)
      else case rx_wait r x of
             Panicked \<Rightarrow> rx_return x
           | Returned x1 \<Rightarrow>
               (let x2 = rx_complete 4 (fst r) x1
                in if rx_alive x2 then rx_complete 2 (snd r) x2 else x2))"

section \<open>Opening\<close>

text \<open>
  \<^verbatim>\<open>from_device\<close> and \<^verbatim>\<open>open\<close> over the calls of nusb: \<open>listed\<close> is what it enumerates,
  \<open>open_info\<close> opens a device, \<open>claim\<close> claims its interface 0 and gives the endpoints of the
  alternate setting 0, \<open>endpoint_of\<close> opens one endpoint by type and address, and \<open>rx_spawned\<close> is the
  outcome of the thread builder. The result is the started worker and the three addresses.
\<close>

record ('i, 'd) usb_os =
  listed :: "string + 'i usb_device_info list"
  open_info :: "'i \<Rightarrow> string + 'd"
  claim :: "'d \<Rightarrow> string + endpoint list option"
  endpoint_of :: "'d \<Rightarrow> transfer_type \<Rightarrow> u8 \<Rightarrow> string + unit"
  rx_spawned :: "string + unit"

definition from_nusb :: "string + 'a \<Rightarrow> usb_error + 'a" where
  "from_nusb r = map_sum Nusb_Error id r"

definition from_device :: "('i, 'd) usb_os \<Rightarrow> 'd \<Rightarrow> usb_error + rx_worker \<times> u8 \<times> u8 \<times> u8" where
  "from_device os d =
     and_then (from_nusb (claim os d)) (\<lambda>alternate_0.
     and_then (discover alternate_0) (\<lambda>(event, input, output).
     and_then (from_nusb (endpoint_of os d Interrupt event)) (\<lambda>_.
     and_then (from_nusb (endpoint_of os d Bulk input)) (\<lambda>_.
     and_then (from_nusb (endpoint_of os d Bulk output)) (\<lambda>_.
     and_then (from_nusb (rx_spawned os)) (\<lambda>_.
       Inr (rx_start, event, input, output)))))))"

text \<open>The two entry points over a file descriptor; \<open>open_fd\<close> is \<^verbatim>\<open>nusb::Device::from_fd\<close>.\<close>

definition from_fd ::
  "('i, 'd) usb_os \<Rightarrow> ('f \<Rightarrow> string + 'd) \<Rightarrow> 'f \<Rightarrow> usb_error + rx_worker \<times> u8 \<times> u8 \<times> u8" where
  "from_fd os open_fd fd = and_then (from_nusb (open_fd fd)) (from_device os)"

definition from_borrowed_fd ::
  "('i, 'd) usb_os \<Rightarrow> ('g \<Rightarrow> string + 'f) \<Rightarrow> ('f \<Rightarrow> string + 'd) \<Rightarrow> 'g
     \<Rightarrow> usb_error + rx_worker \<times> u8 \<times> u8 \<times> u8" where
  "from_borrowed_fd os clone open_fd fd = and_then (from_nusb (clone fd)) (from_fd os open_fd)"

definition open_device ::
  "('i, 'd) usb_os \<Rightarrow> usb_device_selector \<Rightarrow> usb_error + rx_worker \<times> u8 \<times> u8 \<times> u8" where
  "open_device os sel =
     and_then (from_nusb (listed os)) (\<lambda>ds.
     and_then (select_device sel ds) (\<lambda>info.
     and_then (from_nusb (open_info os (info_device info))) (\<lambda>d. from_device os d)))"

text \<open>The build for Android has no enumeration.\<close>

definition open_device_android ::
  "usb_device_selector \<Rightarrow> usb_error + rx_worker \<times> u8 \<times> u8 \<times> u8" where
  "open_device_android sel = Inl Android_Needs_Fd"

section \<open>The transport\<close>

text \<open>
  \<^verbatim>\<open>receive\<close>: what is queued first, then a timeout, and the worker's stop only once the queue is
  empty.
\<close>

definition usb_receive :: "rx_worker \<Rightarrow> rx_worker \<times> (usb_error + hci_packet option)" where
  "usb_receive x =
     (case try_recv (rx_channel x) of
        (Received (Inr p), ch) \<Rightarrow> (x\<lparr>rx_channel := ch\<rparr>, Inr (Some p))
      | (Received (Inl e), ch) \<Rightarrow> (x\<lparr>rx_channel := ch\<rparr>, Inl e)
      | (Nothing_Yet, ch) \<Rightarrow> (x\<lparr>rx_channel := ch\<rparr>, Inr None)
      | (Senders_Gone, ch) \<Rightarrow> (x\<lparr>rx_channel := ch\<rparr>, Inl Worker_Stopped))"

text \<open>
  The calls into nusb: a control transfer, a bulk transfer with the status and length of the
  completion that arrives within two seconds, and the rounds the worker makes until a receive returns.
\<close>

record 'u nusb =
  control_out :: "bytes \<Rightarrow> 'u \<Rightarrow> 'u \<times> (string + unit)"
  bulk_out :: "bytes \<Rightarrow> 'u \<Rightarrow> 'u \<times> ((string + unit) \<times> nat) option"
  rx_rounds :: "nat \<Rightarrow> 'u \<Rightarrow> 'u \<times> (completion \<times> completion) list"

record 'u nusb_hci_transport =
  usb :: 'u
  worker_rx :: rx_worker

definition usb_send :: "'u nusb \<Rightarrow> u8 \<Rightarrow> bytes \<Rightarrow> 'u \<Rightarrow> 'u \<times> (usb_error + unit)" where
  "usb_send n kind packet u =
     (if kind = 1
      then (case control_out n packet u of
              (u', Inl e) \<Rightarrow> (u', Inl (Nusb_Error e))
            | (u', Inr _) \<Rightarrow> (u', Inr ()))
      else if kind = 2
      then (case bulk_out n packet u of
              (u', None) \<Rightarrow> (u', Inl Acl_Out_Timeout)
            | (u', Some (Inl e, _)) \<Rightarrow> (u', Inl (Nusb_Error e))
            | (u', Some (Inr _, len)) \<Rightarrow>
                (u', if len \<noteq> length packet then Inl Short_Acl_Out else Inr ()))
      else (u, Inl Unsupported_Kind))"


definition to_transport_error :: "usb_error + 'a \<Rightarrow> error + 'a" where
  "to_transport_error r = map_sum (\<lambda>e. Transport_Error (usb_message e)) id r"

text \<open>The implementation of \<^verbatim>\<open>HciTransport\<close>.\<close>

definition nusb_transport :: "'u nusb \<Rightarrow> 'u nusb_hci_transport hci_transport" where
  "nusb_transport n =
     \<lparr>t_send = (\<lambda>t kind packet.
        case usb_send n kind packet (usb t) of
          (u, r) \<Rightarrow> (t\<lparr>usb := u\<rparr>, Returned (to_transport_error r))),
      t_receive = (\<lambda>t timeout.
        case rx_rounds n timeout (usb t) of
          (u, rs) \<Rightarrow>
            (case usb_receive (fold (rx_round False) rs (worker_rx t)) of
               (x, r) \<Rightarrow> (\<lparr>usb = u, worker_rx = x\<rparr>, Returned (to_transport_error r))))\<rparr>"

section \<open>The worker's invariant\<close>

definition open_channel :: "rx_worker \<Rightarrow> bool" where
  "open_channel x \<longleftrightarrow>
     capacity (rx_channel x) = Some 256 \<and> receiver_alive (rx_channel x)
     \<and> length (queued (rx_channel x)) \<le> 256
     \<and> senders (rx_channel x) = (if rx_alive x then 1 else 0)"

text \<open>While the worker runs, each endpoint has exactly one transfer submitted.\<close>

definition rx_ok :: "rx_worker \<Rightarrow> bool" where
  "rx_ok x \<longleftrightarrow> open_channel x \<and> (rx_alive x \<longrightarrow> event_transfers x = 1 \<and> acl_transfers x = 1)"

text \<open>What a completion should hand to the runtime, and whether it ends the worker.\<close>

definition completion_items :: "u8 \<Rightarrow> completion \<Rightarrow> (usb_error + hci_packet) list" where
  "completion_items kind c =
     (case c of
        None \<Rightarrow> []
      | Some (Inl e) \<Rightarrow> [Inl (Nusb_Error e)]
      | Some (Inr d) \<Rightarrow> if d = [] then [] else [Inr \<lparr>pkt_kind = kind, pkt_data = d\<rparr>])"

definition failed :: "completion \<Rightarrow> bool" where
  "failed c = (case c of Some (Inl e) \<Rightarrow> True | _ \<Rightarrow> False)"

lemma send_ignored_bounded:
  assumes "capacity c = Some n" and "receiver_alive c"
  shows "queued (send_ignored x c) = (if length (queued c) < n then queued c @ [x] else queued c)"
  using assms by (simp add: send_ignored_def try_send_def has_room_def)

lemma rx_complete_spec:
  assumes "open_channel x" and "rx_alive x"
  shows "prefix (queued (rx_channel x)) (queued (rx_channel (rx_complete kind c x)))
    \<and> prefix (queued (rx_channel (rx_complete kind c x)))
        (queued (rx_channel x) @ completion_items kind c)
    \<and> open_channel (rx_complete kind c x)
    \<and> (rx_alive (rx_complete kind c x) \<longrightarrow>
         queued (rx_channel (rx_complete kind c x)) = queued (rx_channel x) @ completion_items kind c
         \<and> \<not> failed c)"
  using assms
  by (auto simp: rx_complete_def completion_items_def failed_def open_channel_def rx_return_def
      rx_resubmit_def drop_sender_def try_send_def has_room_def send_ignored_def
      split: option.splits sum.splits)

lemma rx_complete_transfers:
  assumes "rx_alive (rx_complete kind c x)" and "rx_alive x"
  shows "event_transfers (rx_complete kind c x) =
      event_transfers x + (if kind = 4 \<and> c \<noteq> None then 1 else 0)
    \<and> acl_transfers (rx_complete kind c x) =
      acl_transfers x + (if kind \<noteq> 4 \<and> c \<noteq> None then 1 else 0)"
  using assms
  by (auto simp: rx_complete_def rx_return_def rx_resubmit_def try_send_def
      split: option.splits sum.splits if_splits)

definition round_items :: "completion \<times> completion \<Rightarrow> (usb_error + hci_packet) list" where
  "round_items r =
     completion_items 4 (fst r) @ (if failed (fst r) then [] else completion_items 2 (snd r))"

definition round_failed :: "completion \<times> completion \<Rightarrow> bool" where
  "round_failed r \<longleftrightarrow> failed (fst r) \<or> failed (snd r)"

lemma rx_wait_ok:
  assumes "rx_ok x" and "rx_alive x"
  shows "rx_wait r x = Returned (x\<lparr>event_transfers := (if fst r = None then 1 else 0),
    acl_transfers := (if snd r = None then 1 else 0)\<rparr>)"
  using assms by (cases r) (simp add: rx_wait_def rx_ok_def)

lemma rx_round_spec:
  assumes "rx_ok x" and "rx_alive x"
  shows "rx_ok (rx_round False r x)
    \<and> prefix (queued (rx_channel (rx_round False r x))) (queued (rx_channel x) @ round_items r)
    \<and> (rx_alive (rx_round False r x) \<longrightarrow>
         queued (rx_channel (rx_round False r x)) = queued (rx_channel x) @ round_items r
         \<and> \<not> round_failed r)"
proof -
  define x1 where "x1 = x\<lparr>event_transfers := (if fst r = None then 1 else 0),
    acl_transfers := (if snd r = None then 1 else 0)\<rparr>"
  define x2 where "x2 = rx_complete 4 (fst r) x1"
  have x1: "open_channel x1" "rx_alive x1" "rx_channel x1 = rx_channel x"
    using assms by (simp_all add: x1_def rx_ok_def open_channel_def)
  note s2 = rx_complete_spec [OF x1(1,2), of 4 "fst r", folded x2_def, unfolded x1(3)]
  have rnd: "rx_round False r x = (if rx_alive x2 then rx_complete 2 (snd r) x2 else x2)"
    using assms rx_wait_ok [OF assms, of r] by (simp add: rx_round_def x1_def x2_def Let_def)
  show ?thesis
  proof (cases "rx_alive x2")
    case False
    then have "rx_round False r x = x2" by (simp add: rnd)
    moreover have "prefix (queued (rx_channel x) @ completion_items 4 (fst r))
        (queued (rx_channel x) @ round_items r)" by (simp add: round_items_def)
    ultimately show ?thesis
      using s2 False by (auto simp: rx_ok_def intro: prefix_order.trans)
  next
    case True
    then have rnd: "rx_round False r x = rx_complete 2 (snd r) x2" by (simp add: rnd)
    from True s2 have q2: "queued (rx_channel x2) = queued (rx_channel x) @ completion_items 4 (fst r)"
      and "open_channel x2" and "\<not> failed (fst r)" by auto
    note s3 = rx_complete_spec [OF \<open>open_channel x2\<close> True, of 2 "snd r", unfolded q2]
    have "event_transfers x2 = 1 \<and> acl_transfers x2 = (if snd r = None then 1 else 0)"
      using rx_complete_transfers [of 4 "fst r" x1] True x1(2) by (simp add: x2_def x1_def)
    then have "rx_alive (rx_complete 2 (snd r) x2) \<longrightarrow>
        event_transfers (rx_complete 2 (snd r) x2) = 1 \<and> acl_transfers (rx_complete 2 (snd r) x2) = 1"
      using rx_complete_transfers [of 2 "snd r" x2] True by simp
    with s3 \<open>\<not> failed (fst r)\<close> show ?thesis
      by (simp add: rnd rx_ok_def round_items_def round_failed_def)
  qed
qed

lemma rx_round_stop:
  assumes "rx_ok x"
  shows "rx_ok (rx_round True r x) \<and> \<not> rx_alive (rx_round True r x)
    \<and> queued (rx_channel (rx_round True r x)) = queued (rx_channel x)"
  using assms
  by (auto simp: rx_round_def rx_return_def rx_ok_def open_channel_def drop_sender_def)

lemma rx_round_dead: "\<not> rx_alive x \<Longrightarrow> rx_round stopped r x = x"
  by (simp add: rx_round_def)

lemma rx_ok_start: "rx_ok rx_start"
  by (simp add: rx_ok_def open_channel_def rx_start_def sync_channel_def)

section \<open>Rounds and receives interleaved\<close>

datatype usb_action = Round bool "completion \<times> completion" | Receive

type_synonym usb_result = "usb_error + hci_packet option"

fun usb_run :: "usb_action list \<Rightarrow> rx_worker \<Rightarrow> rx_worker \<times> usb_result list" where
  "usb_run [] x = (x, [])"
| "usb_run (Round stopped r # acts) x = usb_run acts (rx_round stopped r x)"
| "usb_run (Receive # acts) x =
     (case usb_receive x of
        (x', r) \<Rightarrow> (case usb_run acts x' of (x'', rs) \<Rightarrow> (x'', r # rs)))"

text \<open>The items a list of receive results has delivered.\<close>

fun arrived :: "usb_result list \<Rightarrow> (usb_error + hci_packet) list" where
  "arrived [] = []"
| "arrived (Inr None # rs) = arrived rs"
| "arrived (Inr (Some p) # rs) = Inr p # arrived rs"
| "arrived (Inl e # rs) = (if e = Worker_Stopped then arrived rs else Inl e # arrived rs)"

text \<open>What the endpoints completed, up to the first error or the stop.\<close>

fun produced :: "usb_action list \<Rightarrow> (usb_error + hci_packet) list" where
  "produced [] = []"
| "produced (Receive # acts) = produced acts"
| "produced (Round True r # acts) = []"
| "produced (Round False r # acts) = round_items r @ (if round_failed r then [] else produced acts)"

text \<open>Only nusb's own errors are ever queued.\<close>

definition nusb_items :: "rx_worker \<Rightarrow> bool" where
  "nusb_items x \<longleftrightarrow> Inl Worker_Stopped \<notin> set (queued (rx_channel x))"

lemma round_items_nusb: "Inl Worker_Stopped \<notin> set (round_items r)"
  by (auto simp: round_items_def completion_items_def split: option.splits sum.splits)

lemma rx_round_nusb_items:
  assumes "rx_ok x" and "nusb_items x"
  shows "nusb_items (rx_round stopped r x)"
proof (cases "rx_alive x \<and> \<not> stopped")
  case True
  then have "set (queued (rx_channel (rx_round False r x))) \<subseteq> set (queued (rx_channel x) @ round_items r)"
    using rx_round_spec [OF assms(1), of r] by (intro set_mono_prefix) simp
  with True assms(2) round_items_nusb [of r] show ?thesis by (auto simp: nusb_items_def)
next
  case False
  with assms rx_round_stop [OF assms(1), of r] show ?thesis
    by (cases stopped) (auto simp: nusb_items_def rx_round_dead)
qed

lemma usb_receive_spec:
  assumes "usb_receive x = (x', r)" and "rx_ok x" and "nusb_items x"
  shows "rx_ok x' \<and> nusb_items x' \<and> rx_alive x' = rx_alive x
    \<and> arrived [r] @ queued (rx_channel x') = queued (rx_channel x)
    \<and> (r = Inl Worker_Stopped \<longrightarrow> \<not> rx_alive x \<and> queued (rx_channel x) = [])"
  using assms
  by (auto simp: usb_receive_def try_recv_def rx_ok_def open_channel_def nusb_items_def
      split: list.splits sum.splits if_splits)

lemma arrived_Cons: "arrived (r # rs) = arrived [r] @ arrived rs"
  by (cases "r # rs" rule: arrived.cases) auto

lemma usb_run_spec:
  "\<lbrakk> usb_run acts x = (x', rs); rx_ok x; nusb_items x \<rbrakk> \<Longrightarrow>
     rx_ok x'
     \<and> prefix (arrived rs @ queued (rx_channel x'))
         (queued (rx_channel x) @ (if rx_alive x then produced acts else []))
     \<and> (rx_alive x' \<longrightarrow>
          rx_alive x \<and> arrived rs @ queued (rx_channel x') = queued (rx_channel x) @ produced acts)
     \<and> (Inl Worker_Stopped \<in> set rs \<longrightarrow> \<not> rx_alive x' \<and> queued (rx_channel x') = [])"
proof (induction acts x arbitrary: rs rule: usb_run.induct)
  case (1 x)
  then show ?case by auto
next
  case (2 stopped r acts x)
  let ?y = "rx_round stopped r x"
  have ok: "rx_ok ?y"
    using "2.prems"(2) rx_round_spec [of x r] rx_round_stop [of x r]
    by (cases stopped; cases "rx_alive x") (auto simp: rx_round_dead)
  note ih = "2.IH" [OF _ ok rx_round_nusb_items [OF "2.prems"(2,3)]]
  have run: "usb_run acts ?y = (x', rs)" using "2.prems"(1) by simp
  show ?case
  proof (cases "rx_alive x \<and> \<not> stopped")
    case False
    with "2.prems"(2) rx_round_stop [of x r] have "\<not> rx_alive ?y" "queued (rx_channel ?y) = queued (rx_channel x)"
      by (cases stopped; auto simp: rx_round_dead)+
    with ih [OF run] show ?thesis by (auto intro: prefix_order.trans)
  next
    case True
    note s = rx_round_spec [OF "2.prems"(2), of r]
    show ?thesis
    proof (cases "rx_alive ?y")
      case alive: True
      with True s ih [OF run] show ?thesis by auto
    next
      case False
      with True s ih [OF run] show ?thesis by (auto intro: prefix_order.trans)
    qed
  qed
next
  case (3 acts x)
  obtain y r where rec: "usb_receive x = (y, r)" by (cases "usb_receive x")
  obtain rs' where run: "usb_run acts y = (x', rs')" and rs: "rs = r # rs'"
    using "3.prems"(1) rec by (auto split: prod.splits)
  note r = usb_receive_spec [OF rec "3.prems"(2,3)]
  then have q: "queued (rx_channel x) = arrived [r] @ queued (rx_channel y)" by simp
  have a: "arrived rs = arrived [r] @ arrived rs'" unfolding rs by (rule arrived_Cons)
  from r "3.IH" [OF rec [symmetric] run] show ?case
    unfolding q a unfolding rs by (auto split: if_splits)
qed

section \<open>Which endpoints are chosen\<close>

text \<open>The last endpoint of a role.\<close>

definition last_address :: "transfer_type \<Rightarrow> bool \<Rightarrow> endpoint list \<Rightarrow> u8 option" where
  "last_address ty dir eps =
     map_option ep_address (find (\<lambda>ep. ep_type ep = ty \<and> is_in ep = dir) (rev eps))"

lemma fold_note_endpoint:
  "fold note_endpoint eps no_endpoints =
     \<lparr>event_in = last_address Interrupt True eps, acl_in = last_address Bulk True eps,
      acl_out = last_address Bulk False eps\<rparr>"
proof (induction eps rule: rev_induct)
  case Nil
  then show ?case by (simp add: no_endpoints_def last_address_def)
next
  case (snoc ep eps)
  then show ?case
    by (cases "ep_type ep"; cases "is_in ep") (simp_all add: note_endpoint_def last_address_def)
qed

lemma discover_Inr:
  "discover alternate_0 = Inr (event, input, output) \<longleftrightarrow>
     (\<exists>eps. alternate_0 = Some eps \<and> last_address Interrupt True eps = Some event
        \<and> last_address Bulk True eps = Some input \<and> last_address Bulk False eps = Some output)"
  by (auto simp: discover_def and_then_Inr ok_or_Inr fold_note_endpoint Let_def)

lemma select_device_Inr:
  "select_device sel ds = Inr d \<longleftrightarrow> filter (matches_selector sel) ds = [d]"
  by (auto simp: select_device_def split: list.splits)

lemma from_nusb_Inr: "from_nusb r = Inr v \<longleftrightarrow> r = Inr v"
  by (cases r) (auto simp: from_nusb_def)

text \<open>A device \<^verbatim>\<open>from_device\<close> accepts, with the three addresses it uses.\<close>

definition usable :: "('i, 'd) usb_os \<Rightarrow> 'd \<Rightarrow> u8 \<Rightarrow> u8 \<Rightarrow> u8 \<Rightarrow> bool" where
  "usable os d event input output \<longleftrightarrow>
     (\<exists>eps. claim os d = Inr (Some eps)
        \<and> last_address Interrupt True eps = Some event
        \<and> last_address Bulk True eps = Some input \<and> last_address Bulk False eps = Some output)
     \<and> endpoint_of os d Interrupt event = Inr () \<and> endpoint_of os d Bulk input = Inr ()
     \<and> endpoint_of os d Bulk output = Inr () \<and> rx_spawned os = Inr ()"

lemma from_device_Inr:
  "from_device os d = Inr (x, event, input, output) \<longleftrightarrow> usable os d event input output \<and> x = rx_start"
  by (auto simp: from_device_def usable_def and_then_Inr from_nusb_Inr discover_Inr)

section \<open>Properties\<close>

text \<open>
  C14. The receive worker and the application's receives in any interleaving: what \<^verbatim>\<open>receive\<close> has
  returned followed by what is queued is, in order, a prefix of what the endpoints completed, and all
  of it while the worker runs. The queue holds at most 256 packets, every running endpoint has exactly
  one transfer submitted (so no wait panics), and the worker's stop is reported only when the worker
  is gone and everything it queued was delivered.
\<close>

theorem usb_receive_order:
  assumes "usb_run acts rx_start = (x, rs)"
  shows "prefix (arrived rs @ queued (rx_channel x)) (produced acts)
    \<and> (rx_alive x \<longrightarrow> arrived rs @ queued (rx_channel x) = produced acts
          \<and> event_transfers x = 1 \<and> acl_transfers x = 1)
    \<and> length (queued (rx_channel x)) \<le> 256
    \<and> (Inl Worker_Stopped \<in> set rs \<longrightarrow> \<not> rx_alive x \<and> queued (rx_channel x) = [])"
proof -
  have start: "rx_alive rx_start" "queued (rx_channel rx_start) = []" "nusb_items rx_start"
    by (simp_all add: rx_start_def sync_channel_def nusb_items_def)
  from usb_run_spec [OF assms rx_ok_start start(3)] show ?thesis
    by (auto simp: start rx_ok_def open_channel_def)
qed

text \<open>Two packets, a received one, an unplugged device, and the receives that follow.\<close>

definition unplug_run :: "usb_action list" where
  "unplug_run =
     [Round False (Some (Inr [14, 1, 0]), Some (Inr [64, 32, 0, 0])), Receive,
      Round False (None, Some (Inl ''unplugged'')), Receive, Receive, Receive]"

theorem usb_receive_order_witness:
  "Inl Worker_Stopped \<in> set (snd (usb_run unplug_run rx_start))
    \<and> prefix (arrived (snd (usb_run unplug_run rx_start))) (produced unplug_run)"
proof -
  obtain x rs where run: "usb_run unplug_run rx_start = (x, rs)" by (cases "usb_run unplug_run rx_start")
  have "Inl Worker_Stopped \<in> set (snd (usb_run unplug_run rx_start))"
    by (simp add: unplug_run_def rx_start_def sync_channel_def rx_round_def rx_wait_def rx_complete_def
        try_send_def has_room_def rx_resubmit_def send_ignored_def rx_return_def drop_sender_def
        usb_receive_def try_recv_def)
  with usb_receive_order [OF run] run show ?thesis by (auto intro: append_prefixD)
qed

text \<open>
  \<^verbatim>\<open>NusbHciTransport::open\<close> succeeds exactly if one listed device has the selected vendor and
  product, it opens and interface 0 is claimed, an alternate setting 0 has an interrupt IN, a bulk IN
  and a bulk OUT endpoint, and each of them and the worker thread can be opened; the endpoints used are
  the last of their role. Opening by file descriptor accepts the same devices.
\<close>

theorem open_device_iff:
  "(open_device os sel = Inr (x, event, input, output) \<longleftrightarrow>
     (\<exists>ds info d. listed os = Inr ds \<and> filter (matches_selector sel) ds = [info]
        \<and> open_info os (info_device info) = Inr d \<and> usable os d event input output \<and> x = rx_start))
   \<and> (from_fd os open_fd fd = Inr (x, event, input, output) \<longleftrightarrow>
        (\<exists>d. open_fd fd = Inr d \<and> usable os d event input output \<and> x = rx_start))"
  by (auto simp: open_device_def from_fd_def and_then_Inr from_nusb_Inr select_device_Inr from_device_Inr)

lemma completion_kinds:
  "Inr p \<in> set (completion_items kind c) \<Longrightarrow> pkt_kind p = kind \<and> pkt_data p \<noteq> []"
proof (cases c)
  case (Some r)
  then show "Inr p \<in> set (completion_items kind c) \<Longrightarrow> ?thesis"
    by (cases r) (auto simp: completion_items_def split: if_splits)
qed (simp add: completion_items_def)

lemma round_kinds:
  "Inr p \<in> set (round_items r) \<Longrightarrow> pkt_kind p \<in> {2, 4} \<and> pkt_data p \<noteq> []"
  using completion_kinds [of p 4 "fst r"] completion_kinds [of p 2 "snd r"]
  by (auto simp: round_items_def split: if_splits)

lemma produced_kinds:
  "Inr p \<in> set (produced acts) \<Longrightarrow> pkt_kind p \<in> {2, 4} \<and> pkt_data p \<noteq> []"
proof (induction acts rule: produced.induct)
  case (4 r acts)
  then show ?case using round_kinds [of p r] by (auto split: if_splits)
qed simp_all

lemma arrived_packet: "Inr (Some p) \<in> set rs \<Longrightarrow> Inr p \<in> set (arrived rs)"
  by (induction rs rule: arrived.induct) auto

text \<open>
  C37. Every packet \<^verbatim>\<open>receive\<close> hands to the runtime is an event (4) or ACL data (2) with a payload
  that is not empty: the kinds \<^verbatim>\<open>validate_packet\<close> accepts.
\<close>

theorem usb_packets_typed:
  assumes "usb_run acts rx_start = (x, rs)" and "Inr (Some p) \<in> set rs"
  shows "pkt_kind p \<in> {2, 4} \<and> pkt_data p \<noteq> []"
proof -
  have "nusb_items rx_start" by (simp add: rx_start_def sync_channel_def nusb_items_def)
  from usb_run_spec [OF assms(1) rx_ok_start this]
  have "prefix (arrived rs) (produced acts)"
    by (auto simp: rx_start_def sync_channel_def intro: append_prefixD)
  with arrived_packet [OF assms(2)] set_mono_prefix produced_kinds show ?thesis by blast
qed

theorem usb_packets_typed_witness:
  "Inr (Some \<lparr>pkt_kind = 4, pkt_data = [14, 1, 0]\<rparr>) \<in> set (snd (usb_run unplug_run rx_start))
    \<and> pkt_kind \<lparr>pkt_kind = 4, pkt_data = [14, 1, 0 :: u8]\<rparr> \<in> {2, 4}"
proof -
  obtain x rs where run: "usb_run unplug_run rx_start = (x, rs)" by (cases "usb_run unplug_run rx_start")
  have m: "Inr (Some \<lparr>pkt_kind = 4, pkt_data = [14, 1, 0]\<rparr>) \<in> set (snd (usb_run unplug_run rx_start))"
    by (simp add: unplug_run_def rx_start_def sync_channel_def rx_round_def rx_wait_def rx_complete_def
        try_send_def has_room_def rx_resubmit_def send_ignored_def rx_return_def drop_sender_def
        usb_receive_def try_recv_def)
  with usb_packets_typed [OF run, of "\<lparr>pkt_kind = 4, pkt_data = [14, 1, 0]\<rparr>"] run show ?thesis by simp
qed

section \<open>The run loop over USB\<close>

definition usb_ok :: "'u nusb_hci_transport \<Rightarrow> bool" where
  "usb_ok t \<longleftrightarrow> rx_ok (worker_rx t) \<and> nusb_items (worker_rx t)"


definition over_usb :: "'u nusb \<Rightarrow> ('u nusb_hci_transport, 'b) env \<Rightarrow> ('u nusb_hci_transport, 'b) env" where
  "over_usb n env = env\<lparr>env_transport := nusb_transport n\<rparr>"

lemma usb_rounds_ok:
  "\<lbrakk> rx_ok x; nusb_items x \<rbrakk>
     \<Longrightarrow> rx_ok (fold (rx_round False) rs x) \<and> nusb_items (fold (rx_round False) rs x)"
proof (induction rs arbitrary: x)
  case (Cons r rs)
  have "rx_ok (rx_round False r x)"
    using Cons.prems(1) rx_round_spec [of x r] by (cases "rx_alive x") (simp_all add: rx_round_dead)
  with Cons rx_round_nusb_items [OF Cons.prems] show ?case by simp
qed simp

interpretation usb: transport_invariant "over_usb n env" usb_ok for n env
proof (unfold_locales, goal_cases)
  case (1 t kind packet t' r)
  then show ?case by (auto simp: over_usb_def nusb_transport_def usb_ok_def split: prod.splits)
next
  case (2 t n' t' p)
  then show ?case
    using usb_rounds_ok [of "worker_rx t" "snd (rx_rounds n n' (usb t))"]
    by (auto simp: over_usb_def nusb_transport_def usb_ok_def split: prod.splits
        dest!: usb_receive_spec)
qed







end
