(* ===== verification/Args.thy ===== *)
theory Args
  imports Nusb
begin

text \<open>
  examples/gatt-peripheral/src/args.rs: the command line of the desktop example. A \<^verbatim>\<open>String\<close> is the
  list of its bytes. The iterator over the arguments is a list; an error carries what its message
  shows. \<open>accepted\<close> is the grammar the parser is compared with.
\<close>

section \<open>Numbers\<close>

text \<open>\<^verbatim>\<open>char::to_digit\<close> and \<^verbatim>\<open>from_str_radix\<close> of an unsigned type with \<open>limit\<close> values.\<close>

definition digit_value :: "nat \<Rightarrow> char \<Rightarrow> nat option" where
  "digit_value radix c =
     (let n = of_char c :: nat;
          d = (if 48 \<le> n \<and> n \<le> 57 then n - 48
               else if 97 \<le> n \<and> n \<le> 122 then n - 87
               else if 65 \<le> n \<and> n \<le> 90 then n - 55
               else radix)
      in if d < radix then Some d else None)"

fun parse_digits :: "nat \<Rightarrow> nat \<Rightarrow> string \<Rightarrow> nat \<Rightarrow> nat option" where
  "parse_digits limit radix [] n = Some n"
| "parse_digits limit radix (c # cs) n =
     (if limit \<le> n * radix then None
      else case digit_value radix c of
             None \<Rightarrow> None
           | Some d \<Rightarrow>
               if limit \<le> n * radix + d then None else parse_digits limit radix cs (n * radix + d))"

definition from_str_radix :: "nat \<Rightarrow> nat \<Rightarrow> string \<Rightarrow> nat option" where
  "from_str_radix limit radix s =
     (case s of
        [] \<Rightarrow> None
      | c # cs \<Rightarrow>
          if c \<in> set ''+-'' \<and> cs = [] then None
          else parse_digits limit radix (if c = CHR ''+'' then cs else s) 0)"

definition strip_prefix :: "string \<Rightarrow> string \<Rightarrow> string option" where
  "strip_prefix p s = (if take (length p) s = p then Some (drop (length p) s) else None)"

definition is_ascii_hexdigit :: "char \<Rightarrow> bool" where
  "is_ascii_hexdigit c \<longleftrightarrow> digit_value 16 c \<noteq> None"

section \<open>The arguments\<close>

datatype args_error =
    Duplicate_Id string
  | Missing_Value string
  | Invalid_Id string
  | Invalid_Int
  | Duplicate_Seconds
  | Missing_Seconds
  | Invalid_Seconds
  | Unknown_Argument string
  | One_Id_Only

record args =
  selector :: usb_device_selector
  seconds :: "u64 option"
  probe :: bool
  show_help :: bool

definition parse_usb_id :: "string \<Rightarrow> args_error + u16" where
  "parse_usb_id value0 =
     (let digits =
        (case strip_prefix ''0x'' value0 of
           Some d \<Rightarrow> d
         | None \<Rightarrow> (case strip_prefix ''0X'' value0 of Some d \<Rightarrow> d | None \<Rightarrow> value0))
      in if digits = [] \<or> 4 < length digits \<or> \<not> list_all is_ascii_hexdigit digits
         then Inl (Invalid_Id value0)
         else map_sum id word_of_nat (ok_or Invalid_Int (from_str_radix (2 ^ 16) 16 digits)))"

text \<open>The variables of the loop.\<close>

record arg_slots =
  vid :: "u16 option"
  pid :: "u16 option"
  secs :: "u64 option"
  probe_flag :: bool
  help_flag :: bool

definition no_slots :: arg_slots where
  "no_slots = \<lparr>vid = None, pid = None, secs = None, probe_flag = False, help_flag = False\<rparr>"

definition parse_seconds :: "string \<Rightarrow> args_error + u64" where
  "parse_seconds s = map_sum id word_of_nat (ok_or Invalid_Seconds (from_str_radix (2 ^ 64) 10 s))"

text \<open>
  \<^verbatim>\<open>while let Some(arg) = args.next()\<close>. \<^verbatim>\<open>--pid\<close> and \<^verbatim>\<open>--did\<close> share one slot; the
  duplicate is reported before the missing value.
\<close>

fun parse_loop :: "string list \<Rightarrow> arg_slots \<Rightarrow> args_error + arg_slots" where
  "parse_loop [] s = Inr s"
| "parse_loop (arg # rest) s =
     (if arg = ''--vid'' \<or> arg = ''--pid'' \<or> arg = ''--did''
      then (if (if arg = ''--vid'' then vid s else pid s) \<noteq> None then Inl (Duplicate_Id arg)
            else case rest of
                   [] \<Rightarrow> Inl (Missing_Value arg)
                 | v # rest' \<Rightarrow>
                     (case parse_usb_id v of
                        Inl e \<Rightarrow> Inl e
                      | Inr w \<Rightarrow>
                          parse_loop rest'
                            (if arg = ''--vid'' then s\<lparr>vid := Some w\<rparr> else s\<lparr>pid := Some w\<rparr>)))
      else if arg = ''--seconds''
      then (if secs s \<noteq> None then Inl Duplicate_Seconds
            else case rest of
                   [] \<Rightarrow> Inl Missing_Seconds
                 | v # rest' \<Rightarrow>
                     (case parse_seconds v of
                        Inl e \<Rightarrow> Inl e
                      | Inr n \<Rightarrow> parse_loop rest' (s\<lparr>secs := Some n\<rparr>)))
      else if arg = ''--probe'' then parse_loop rest (s\<lparr>probe_flag := True\<rparr>)
      else if arg = ''--help'' \<or> arg = ''-h'' then parse_loop rest (s\<lparr>help_flag := True\<rparr>)
      else Inl (Unknown_Argument arg))"

definition select_ids :: "u16 option \<Rightarrow> u16 option \<Rightarrow> args_error + usb_device_selector" where
  "select_ids v p =
     (case (v, p) of
        (Some v, Some p) \<Rightarrow> Inr (selector_new v p)
      | (None, None) \<Rightarrow> Inr (selector_new 0x0411 0x0374)
      | _ \<Rightarrow> Inl One_Id_Only)"

definition parse :: "string list \<Rightarrow> args_error + args" where
  "parse args =
     and_then (parse_loop args no_slots) (\<lambda>s.
     and_then (select_ids (vid s) (pid s)) (\<lambda>sel.
       Inr \<lparr>selector = sel, seconds = secs s, probe = probe_flag s, show_help = help_flag s\<rparr>))"

section \<open>Numbers against their value\<close>

text \<open>The value of a digit string, without bounds.\<close>

definition digits_value :: "nat \<Rightarrow> string \<Rightarrow> nat \<Rightarrow> nat" where
  "digits_value radix cs n = foldl (\<lambda>m c. m * radix + the (digit_value radix c)) n cs"

lemma digits_value_Cons:
  "digits_value radix (c # cs) n = digits_value radix cs (n * radix + the (digit_value radix c))"
  by (simp add: digits_value_def)

lemma digits_value_ge: "0 < radix \<Longrightarrow> n \<le> digits_value radix cs n"
proof (induction cs arbitrary: n)
  case Nil
  then show ?case by (simp add: digits_value_def)
next
  case (Cons c cs)
  then have "n * radix + the (digit_value radix c) \<le> digits_value radix (c # cs) n"
    by (simp add: digits_value_Cons)
  moreover have "n * 1 \<le> n * radix" using Cons.prems by (intro mult_le_mono) simp_all
  ultimately show ?case by linarith
qed

lemma parse_digits_value:
  assumes "0 < radix"
  shows "n < limit \<Longrightarrow> parse_digits limit radix cs n =
    (if (\<forall>c \<in> set cs. digit_value radix c \<noteq> None) \<and> digits_value radix cs n < limit
     then Some (digits_value radix cs n) else None)"
proof (induction cs arbitrary: n)
  case Nil
  then show ?case by (simp add: digits_value_def)
next
  case (Cons c cs)
  show ?case
  proof (cases "digit_value radix c")
    case None
    then show ?thesis by auto
  next
    case (Some d)
    have le: "n * radix + d \<le> digits_value radix cs (n * radix + d)"
      by (rule digits_value_ge [OF assms])
    show ?thesis
      using Some Cons.IH [of "n * radix + d"] le by (auto simp: digits_value_Cons)
  qed
qed

lemma digits_value_append: "digits_value r (xs @ ys) n = digits_value r ys (digits_value r xs n)"
  by (simp add: digits_value_def)

lemma digit_value_less: "digit_value r c = Some d \<Longrightarrow> d < r"
  by (auto simp: digit_value_def Let_def split: if_splits)

lemma digits_value_bound:
  "(\<forall>c \<in> set cs. digit_value r c \<noteq> None) \<Longrightarrow> digits_value r cs n < (n + 1) * r ^ length cs"
proof (induction cs arbitrary: n)
  case Nil
  then show ?case by (simp add: digits_value_def)
next
  case (Cons c cs)
  from Cons.prems obtain d where d: "digit_value r c = Some d" by auto
  then have "d < r" by (rule digit_value_less)
  have "digits_value r (c # cs) n < (n * r + d + 1) * r ^ length cs"
    using Cons.IH [of "n * r + d"] Cons.prems d by (simp add: digits_value_Cons)
  also have "\<dots> \<le> ((n + 1) * r) * r ^ length cs"
    using \<open>d < r\<close> by (intro mult_le_mono1) simp
  finally show ?case by (simp add: algebra_simps)
qed

section \<open>USB identifiers\<close>

text \<open>The digits of an identifier: what follows a \<^verbatim>\<open>0x\<close> or \<^verbatim>\<open>0X\<close>.\<close>

definition id_digits :: "string \<Rightarrow> string" where
  "id_digits s = (if take 2 s \<in> {''0x'', ''0X''} then drop 2 s else s)"

definition valid_id :: "string \<Rightarrow> bool" where
  "valid_id s \<longleftrightarrow> id_digits s \<noteq> [] \<and> length (id_digits s) \<le> 4
     \<and> (\<forall>c \<in> set (id_digits s). digit_value 16 c \<noteq> None)"

lemma sign_no_digit: "digit_value r CHR ''+'' = None" "digit_value r CHR ''-'' = None"
  by (simp_all add: digit_value_def)

lemma from_str_radix_digits:
  assumes "cs \<noteq> []" and "\<forall>c \<in> set cs. digit_value r c \<noteq> None" and "0 < r" and "0 < limit"
  shows "from_str_radix limit r cs =
    (if digits_value r cs 0 < limit then Some (digits_value r cs 0) else None)"
proof -
  obtain c cs' where cs: "cs = c # cs'" using assms(1) by (cases cs) auto
  with assms(2) have "c \<noteq> CHR ''+''" "c \<noteq> CHR ''-''" using sign_no_digit by auto
  with cs have "from_str_radix limit r cs = parse_digits limit r cs 0"
    by (simp add: from_str_radix_def)
  with parse_digits_value [OF assms(3,4), of cs] assms(2) show ?thesis by simp
qed

lemma parse_usb_id_value:
  "parse_usb_id s =
     (if valid_id s then Inr (word_of_nat (digits_value 16 (id_digits s) 0)) else Inl (Invalid_Id s))"
proof -
  have d: "(case strip_prefix ''0x'' s of Some d \<Rightarrow> d
      | None \<Rightarrow> (case strip_prefix ''0X'' s of Some d \<Rightarrow> d | None \<Rightarrow> s)) = id_digits s"
    by (simp add: strip_prefix_def id_digits_def numeral_2_eq_2)
  show ?thesis
  proof (cases "valid_id s")
    case True
    then have v: "id_digits s \<noteq> []" "length (id_digits s) \<le> 4"
      "\<forall>c \<in> set (id_digits s). digit_value 16 c \<noteq> None" by (auto simp: valid_id_def)
    have "(16::nat) ^ length (id_digits s) \<le> 16 ^ 4" using v(2) by (intro power_increasing) simp_all
    with digits_value_bound [OF v(3), of 0] have "digits_value 16 (id_digits s) 0 < 65536" by simp
    with from_str_radix_digits [OF v(1,3), of 65536]
    have "from_str_radix (2 ^ 16) 16 (id_digits s) = Some (digits_value 16 (id_digits s) 0)" by simp
    with v True show ?thesis
      by (simp add: parse_usb_id_def d Let_def list_all_iff is_ascii_hexdigit_def del: power_numeral)
  next
    case False
    then show ?thesis
      by (auto simp: parse_usb_id_def d Let_def list_all_iff is_ascii_hexdigit_def valid_id_def)
  qed
qed

text \<open>What \<^verbatim>\<open>{:04x}\<close> prints is read back.\<close>

lemma hex_digit_value: "n < 16 \<Longrightarrow> digit_value 16 (''0123456789abcdef'' ! n) = Some n"
  by (auto simp: digit_value_def numeral_eq_Suc less_Suc_eq)

lemma hex4_digits:
  "hex4 w = map (\<lambda>i. ''0123456789abcdef'' ! (unat w div 16 ^ i mod 16)) [3, 2, 1, 0]"
  by (simp add: hex4_def unat_drop_bit_eq drop_bit_eq_div unat_div)

lemma base_16: "4096 * (n div 4096) + 256 * (n div 256 mod 16) + n div 16 mod 16 * 16 + n mod 16 = n"
  for n :: nat
proof -
  have d: "n div 256 = n div 16 div 16" "n div 4096 = n div 16 div 16 div 16"
    by (simp_all add: div_mult2_eq [symmetric])
  show ?thesis
    unfolding d
    using div_mult_mod_eq [of n 16] div_mult_mod_eq [of "n div 16" 16]
      div_mult_mod_eq [of "n div 16 div 16" 16] by linarith
qed

lemma hex4_value: "digits_value 16 (hex4 w) 0 = unat w"
  using base_16 [of "unat w"] unat_u16_bound [of w]
  by (simp add: hex4_digits digits_value_def hex_digit_value)

lemma hex4_valid: "length (hex4 w) = 4" "c \<in> set (hex4 w) \<Longrightarrow> digit_value 16 c \<noteq> None"
  by (auto simp: hex4_digits hex_digit_value)

lemma id_digits_hex4:
  "id_digits (hex4 w) = hex4 w" "id_digits (''0x'' @ hex4 w) = hex4 w"
  "id_digits (''0X'' @ hex4 w) = hex4 w"
proof -
  have "hex4 w ! 1 \<noteq> CHR ''x'' \<and> hex4 w ! 1 \<noteq> CHR ''X''"
    using hex4_valid(2) [of "hex4 w ! 1" w] by (auto simp: digit_value_def hex4_valid(1))
  then show "id_digits (hex4 w) = hex4 w"
    by (auto simp: id_digits_def hex4_def numeral_2_eq_2)
qed (simp_all add: id_digits_def numeral_2_eq_2)

lemma valid_id_hex4: "id_digits s = hex4 w \<Longrightarrow> valid_id s"
  using hex4_valid(1) [of w] hex4_valid(2) [of _ w] by (auto simp: valid_id_def)

lemma parse_usb_id_hex4:
  "pre \<in> {[], ''0x'', ''0X''} \<Longrightarrow> parse_usb_id (pre @ hex4 w) = Inr w"
  using id_digits_hex4 [of w] valid_id_hex4 [of "pre @ hex4 w" w]
  by (elim insertE emptyE) (simp_all add: parse_usb_id_value hex4_value)

section \<open>The grammar\<close>

datatype cli_option =
    Vid string | Pid string | Did string | Seconds string | Probe | Help | H

primrec render :: "cli_option \<Rightarrow> string list" where
  "render (Vid v) = [''--vid'', v]"
| "render (Pid v) = [''--pid'', v]"
| "render (Did v) = [''--did'', v]"
| "render (Seconds v) = [''--seconds'', v]"
| "render Probe = [''--probe'']"
| "render Help = [''--help'']"
| "render H = [''-h'']"

definition vids :: "cli_option list \<Rightarrow> string list" where
  "vids opts = concat (map (\<lambda>opt. case opt of Vid v \<Rightarrow> [v] | _ \<Rightarrow> []) opts)"

definition pids :: "cli_option list \<Rightarrow> string list" where
  "pids opts = concat (map (\<lambda>opt. case opt of Pid v \<Rightarrow> [v] | Did v \<Rightarrow> [v] | _ \<Rightarrow> []) opts)"

definition second_values :: "cli_option list \<Rightarrow> string list" where
  "second_values opts = concat (map (\<lambda>opt. case opt of Seconds v \<Rightarrow> [v] | _ \<Rightarrow> []) opts)"

lemma option_values_simps [simp]:
  "vids [] = []" "pids [] = []" "second_values [] = []"
  "vids (opt # opts) = (case opt of Vid v \<Rightarrow> [v] | _ \<Rightarrow> []) @ vids opts"
  "pids (opt # opts) = (case opt of Pid v \<Rightarrow> [v] | Did v \<Rightarrow> [v] | _ \<Rightarrow> []) @ pids opts"
  "second_values (opt # opts) = (case opt of Seconds v \<Rightarrow> [v] | _ \<Rightarrow> []) @ second_values opts"
  by (simp_all add: vids_def pids_def second_values_def)

text \<open>A slot after the values given for it: at most one, and none if it was filled before.\<close>

definition fills :: "(string \<Rightarrow> 'e + 'v) \<Rightarrow> 'v option \<Rightarrow> string list \<Rightarrow> 'v option \<Rightarrow> bool" where
  "fills P old vs new \<longleftrightarrow>
     (case vs of [] \<Rightarrow> new = old
      | [v] \<Rightarrow> old = None \<and> (case P v of Inl e \<Rightarrow> False | Inr k \<Rightarrow> new = Some k)
      | _ \<Rightarrow> False)"

lemma fills_Nil [simp]: "fills P old [] new \<longleftrightarrow> new = old"
  by (simp add: fills_def)

lemma fills_Some [simp]: "fills P (Some k) vs new \<longleftrightarrow> vs = [] \<and> new = Some k"
  by (auto simp: fills_def split: list.splits)

lemma fills_Cons: "fills P old (v # vs) new \<longleftrightarrow> (\<exists>k. old = None \<and> P v = Inr k \<and> fills P (Some k) vs new)"
  by (auto simp: fills_def split: list.splits sum.splits)

definition slots_after :: "arg_slots \<Rightarrow> cli_option list \<Rightarrow> arg_slots \<Rightarrow> bool" where
  "slots_after s opts s' \<longleftrightarrow>
     fills parse_usb_id (vid s) (vids opts) (vid s')
     \<and> fills parse_usb_id (pid s) (pids opts) (pid s')
     \<and> fills parse_seconds (secs s) (second_values opts) (secs s')
     \<and> probe_flag s' = (probe_flag s \<or> Probe \<in> set opts)
     \<and> help_flag s' = (help_flag s \<or> Help \<in> set opts \<or> H \<in> set opts)"

lemma slots_after_Nil: "slots_after s [] s' \<longleftrightarrow> s' = s"
  by (auto simp: slots_after_def)

lemma slots_after_Cons:
  "slots_after s (Vid v # opts) s' \<longleftrightarrow>
     (\<exists>w. vid s = None \<and> parse_usb_id v = Inr w \<and> slots_after (s\<lparr>vid := Some w\<rparr>) opts s')"
  "slots_after s (Pid v # opts) s' \<longleftrightarrow>
     (\<exists>w. pid s = None \<and> parse_usb_id v = Inr w \<and> slots_after (s\<lparr>pid := Some w\<rparr>) opts s')"
  "slots_after s (Did v # opts) s' \<longleftrightarrow>
     (\<exists>w. pid s = None \<and> parse_usb_id v = Inr w \<and> slots_after (s\<lparr>pid := Some w\<rparr>) opts s')"
  "slots_after s (Seconds v # opts) s' \<longleftrightarrow>
     (\<exists>n. secs s = None \<and> parse_seconds v = Inr n \<and> slots_after (s\<lparr>secs := Some n\<rparr>) opts s')"
  "slots_after s (Probe # opts) s' \<longleftrightarrow> slots_after (s\<lparr>probe_flag := True\<rparr>) opts s'"
  "slots_after s (Help # opts) s' \<longleftrightarrow> slots_after (s\<lparr>help_flag := True\<rparr>) opts s'"
  "slots_after s (H # opts) s' \<longleftrightarrow> slots_after (s\<lparr>help_flag := True\<rparr>) opts s'"
  by (auto simp: slots_after_def fills_Cons)

text \<open>Reading one option off the arguments.\<close>

lemma parse_loop_vid:
  "parse_loop (render (Vid v) @ rest) s = Inr s' \<longleftrightarrow>
     (\<exists>w. vid s = None \<and> parse_usb_id v = Inr w \<and> parse_loop rest (s\<lparr>vid := Some w\<rparr>) = Inr s')"
  by (cases "parse_usb_id v") simp_all

lemma parse_loop_pid:
  "parse_loop (render (Pid v) @ rest) s = Inr s' \<longleftrightarrow>
     (\<exists>w. pid s = None \<and> parse_usb_id v = Inr w \<and> parse_loop rest (s\<lparr>pid := Some w\<rparr>) = Inr s')"
  by (cases "parse_usb_id v") simp_all

lemma parse_loop_did:
  "parse_loop (render (Did v) @ rest) s = Inr s' \<longleftrightarrow>
     (\<exists>w. pid s = None \<and> parse_usb_id v = Inr w \<and> parse_loop rest (s\<lparr>pid := Some w\<rparr>) = Inr s')"
  by (cases "parse_usb_id v") simp_all

lemma parse_loop_seconds:
  "parse_loop (render (Seconds v) @ rest) s = Inr s' \<longleftrightarrow>
     (\<exists>n. secs s = None \<and> parse_seconds v = Inr n \<and> parse_loop rest (s\<lparr>secs := Some n\<rparr>) = Inr s')"
  by (cases "parse_seconds v") simp_all

lemma parse_loop_flags:
  "parse_loop (render Probe @ rest) s = parse_loop rest (s\<lparr>probe_flag := True\<rparr>)"
  "parse_loop (render Help @ rest) s = parse_loop rest (s\<lparr>help_flag := True\<rparr>)"
  "parse_loop (render H @ rest) s = parse_loop rest (s\<lparr>help_flag := True\<rparr>)"
  by simp_all

lemmas parse_loop_render =
  parse_loop_vid parse_loop_pid parse_loop_did parse_loop_seconds parse_loop_flags

text \<open>A list that starts with no option does not parse.\<close>

lemma parse_loop_head:
  assumes "parse_loop (arg # rest) s = Inr s'"
  obtains opt rest' where "arg # rest = render opt @ rest'" "length rest' \<le> length rest"
proof (cases "arg = ''--probe'' \<or> arg = ''--help'' \<or> arg = ''-h''")
  case True
  then have "arg # rest = render Probe @ rest \<or> arg # rest = render Help @ rest \<or> arg # rest = render H @ rest"
    by auto
  then show thesis using that [of _ rest] by blast
next
  case False
  have arg: "arg = ''--vid'' \<or> arg = ''--pid'' \<or> arg = ''--did'' \<or> arg = ''--seconds''"
  proof (rule ccontr)
    assume "\<not> ?thesis"
    with False assms show False by simp
  qed
  moreover obtain v rest' where r: "rest = v # rest'"
  proof (cases rest)
    case Nil
    with arg assms have False by (elim disjE) (simp_all split: if_splits)
    then show thesis ..
  qed (use that in blast)
  ultimately have "arg # rest = render (Vid v) @ rest' \<or> arg # rest = render (Pid v) @ rest'
      \<or> arg # rest = render (Did v) @ rest' \<or> arg # rest = render (Seconds v) @ rest'"
    by auto
  then obtain opt where "arg # rest = render opt @ rest'" by blast
  with r show thesis using that [of opt rest'] by simp
qed

lemma parse_loop_complete:
  "slots_after s opts s' \<Longrightarrow> parse_loop (concat (map render opts)) s = Inr s'"
proof (induction opts arbitrary: s)
  case Nil
  then show ?case by (simp add: slots_after_Nil)
next
  case (Cons opt opts)
  then show ?case
    by (cases opt) (auto simp: slots_after_Cons parse_loop_render simp del: render.simps parse_loop.simps)
qed

lemma parse_loop_sound:
  "parse_loop args s = Inr s' \<Longrightarrow> \<exists>opts. args = concat (map render opts) \<and> slots_after s opts s'"
proof (induction "length args" arbitrary: args s rule: less_induct)
  case less
  show ?case
  proof (cases args)
    case Nil
    with less.prems have "args = concat (map render []) \<and> slots_after s [] s'"
      by (simp add: slots_after_Nil)
    then show ?thesis by blast
  next
    case (Cons arg rest)
    obtain opt rest' where "args = render opt @ rest'" "length rest' \<le> length rest"
      using parse_loop_head [OF less.prems [unfolded Cons]] Cons by blast
    with Cons have a: "args = render opt @ rest'" "length rest' < length args" by simp_all
    note ih = less.hyps [OF a(2)]
    have "\<exists>opts. rest' = concat (map render opts) \<and> slots_after s (opt # opts) s'"
      using less.prems ih unfolding a(1)
      by (cases opt)
        (auto simp: slots_after_Cons parse_loop_render simp del: render.simps parse_loop.simps)
    then obtain opts where "rest' = concat (map render opts)" "slots_after s (opt # opts) s'" by blast
    with a(1) have "args = concat (map render (opt # opts)) \<and> slots_after s (opt # opts) s'" by simp
    then show ?thesis by blast
  qed
qed

section \<open>Properties\<close>

lemma parse_loop_iff:
  "parse_loop args s = Inr s' \<longleftrightarrow> (\<exists>opts. args = concat (map render opts) \<and> slots_after s opts s')"
  using parse_loop_sound [of args s s'] parse_loop_complete [of s _ s'] by blast

text \<open>
  The identifier parser agrees with the reference reading of its digits on every string: one to
  four hexadecimal digits, after an optional \<^verbatim>\<open>0x\<close> or \<^verbatim>\<open>0X\<close>, give their value in base 16, and
  anything else (a sign included) is refused as an invalid identifier. The checked
  \<^verbatim>\<open>from_str_radix\<close> behind it never overflows nor fails.
\<close>

theorem parse_usb_id_equiv:
  "parse_usb_id s =
     (if valid_id s then Inr (word_of_nat (digits_value 16 (id_digits s) 0)) else Inl (Invalid_Id s))
   \<and> (valid_id s \<longrightarrow> digits_value 16 (id_digits s) 0 < 2 ^ 16)"
proof -
  have "digits_value 16 (id_digits s) 0 < 2 ^ 16" if "valid_id s"
  proof -
    from that have "(16::nat) ^ length (id_digits s) \<le> 16 ^ 4"
      unfolding valid_id_def by (intro power_increasing) simp_all
    with that digits_value_bound [of "id_digits s" 16 0] show ?thesis by (simp add: valid_id_def)
  qed
  then show ?thesis by (simp add: parse_usb_id_value)
qed

theorem parse_usb_id_equiv_witness:
  "digits_value 16 (id_digits ''0X1aF'') 0 < 2 ^ 16"
proof -
  have "valid_id ''0X1aF''" by (simp add: valid_id_def id_digits_def digit_value_def numeral_2_eq_2)
  with parse_usb_id_equiv [of "''0X1aF''"] show ?thesis by blast
qed

text \<open>The device the IDs name; without IDs, the default.\<close>

definition chosen :: "u16 option \<Rightarrow> u16 option \<Rightarrow> usb_device_selector" where
  "chosen v p = \<lparr>vendor_id = case_option 0x0411 id v, product_id = case_option 0x0374 id p\<rparr>"

lemma select_ids_Inr:
  "select_ids v p = Inr sel \<longleftrightarrow> (v = None \<longleftrightarrow> p = None) \<and> sel = chosen v p"
  by (cases v; cases p) (auto simp: select_ids_def selector_new_def chosen_def)

text \<open>
  C38. \<^verbatim>\<open>Args::parse\<close> accepts exactly the argument lists the usage text describes: a sequence of
  options in any order with at most one valid vendor and at most one valid product ID (under either
  name), given together or not at all, at most one number of seconds, and flags any number of times.
  The result is what the options say, with the default device when no ID is given.
\<close>

theorem parse_accepts_iff:
  "parse args = Inr a \<longleftrightarrow>
     (\<exists>opts s. args = concat (map render opts) \<and> slots_after no_slots opts s
        \<and> (vid s = None \<longleftrightarrow> pid s = None)
        \<and> selector a = chosen (vid s) (pid s)
        \<and> seconds a = secs s
        \<and> probe a = (Probe \<in> set opts) \<and> show_help a = (Help \<in> set opts \<or> H \<in> set opts))"
  (is "?L \<longleftrightarrow> ?R")
proof -
  have flags: "probe_flag s = (Probe \<in> set opts) \<and> help_flag s = (Help \<in> set opts \<or> H \<in> set opts)"
    if "slots_after no_slots opts s" for opts s
    using that by (simp add: slots_after_def no_slots_def)
  have "?L \<longleftrightarrow> (\<exists>s. parse_loop args no_slots = Inr s \<and> (vid s = None \<longleftrightarrow> pid s = None)
        \<and> a = \<lparr>selector = chosen (vid s) (pid s), seconds = secs s,
           probe = probe_flag s, show_help = help_flag s\<rparr>)"
    by (auto simp: parse_def and_then_Inr select_ids_Inr)
  also have "\<dots> \<longleftrightarrow> (\<exists>opts s. args = concat (map render opts) \<and> slots_after no_slots opts s
        \<and> (vid s = None \<longleftrightarrow> pid s = None)
        \<and> a = \<lparr>selector = chosen (vid s) (pid s), seconds = secs s,
           probe = probe_flag s, show_help = help_flag s\<rparr>)"
    by (subst parse_loop_iff) (simp only: ex_simps [symmetric] conj_assoc, rule ex_comm)
  also have "\<dots> \<longleftrightarrow> ?R"
    by (cases a) (intro ex_cong1 conj_cong refl, auto simp: flags)
  finally show ?thesis .
qed

text \<open>The decimal digits \<^verbatim>\<open>Display\<close> prints.\<close>

fun decimal :: "nat \<Rightarrow> string" where
  "decimal n = (if n < 10 then [char_of (48 + n)] else decimal (n div 10) @ [char_of (48 + n mod 10)])"

declare decimal.simps [simp del]

lemma digit_char: "n < 10 \<Longrightarrow> digit_value 10 (char_of (48 + n)) = Some n"
  by (simp add: digit_value_def)

lemma decimal_digits:
  "decimal n \<noteq> [] \<and> (\<forall>c \<in> set (decimal n). digit_value 10 c \<noteq> None) \<and> digits_value 10 (decimal n) 0 = n"
proof (induction n rule: less_induct)
  case (less n)
  show ?case
  proof (cases "n < 10")
    case True
    then show ?thesis by (simp add: decimal.simps [of n] digit_char digits_value_def)
  next
    case False
    then have "n div 10 < n" by simp
    from less [OF this] False show ?thesis
      by (auto simp: decimal.simps [of n] digit_char digits_value_append)
        (simp_all add: digits_value_def digit_char)
  qed
qed

lemma parse_seconds_decimal: "parse_seconds (decimal (unat (n :: u64))) = Inr n"
proof -
  have "unat n < 2 ^ 64" using unsigned_less [of n] by simp
  with from_str_radix_digits [of "decimal (unat n)" 10 "2 ^ 64"] decimal_digits [of "unat n"]
  show ?thesis by (simp add: parse_seconds_def)
qed

definition to_options :: "string \<Rightarrow> args \<Rightarrow> cli_option list" where
  "to_options pre a =
     [Did (pre @ hex4 (product_id (selector a))), Vid (pre @ hex4 (vendor_id (selector a)))]
     @ (case seconds a of None \<Rightarrow> [] | Some n \<Rightarrow> [Seconds (decimal (unat n))])
     @ (if probe a then [Probe] else []) @ (if show_help a then [H] else [])"

lemma to_options_slots:
  assumes "pre \<in> {[], ''0x'', ''0X''}"
  shows "slots_after no_slots (to_options pre a)
    \<lparr>vid = Some (vendor_id (selector a)), pid = Some (product_id (selector a)), secs = seconds a,
     probe_flag = probe a, help_flag = show_help a\<rparr>"
  using parse_usb_id_hex4 [OF assms]
  by (cases "seconds a")
    (simp_all add: to_options_def slots_after_def no_slots_def fills_def parse_seconds_decimal)

text \<open>
  C39. Printing a configuration as arguments and parsing them gives the configuration back: the IDs in
  four hexadecimal digits with or without a prefix, the seconds in decimal, for every 64-bit value.
\<close>

theorem parse_roundtrip:
  assumes "pre \<in> {[], ''0x'', ''0X''}"
  shows "parse (concat (map render (to_options pre a))) = Inr a"
proof -
  have "parse_loop (concat (map render (to_options pre a))) no_slots =
      Inr \<lparr>vid = Some (vendor_id (selector a)), pid = Some (product_id (selector a)), secs = seconds a,
        probe_flag = probe a, help_flag = show_help a\<rparr>"
    using to_options_slots [OF assms] by (rule parse_loop_complete)
  then show ?thesis by (simp add: parse_def select_ids_def selector_new_def)
qed

theorem parse_roundtrip_witness:
  "parse [''--did'', ''0x0374'', ''--vid'', ''0x0bda'', ''--seconds'', ''7'', ''--probe''] =
    Inr \<lparr>selector = \<lparr>vendor_id = 0x0bda, product_id = 0x0374\<rparr>, seconds = Some 7, probe = True,
      show_help = False\<rparr>"
proof -
  let ?a = "\<lparr>selector = \<lparr>vendor_id = 0x0bda, product_id = 0x0374\<rparr>, seconds = Some 7, probe = True,
    show_help = False\<rparr>"
  have "concat (map render (to_options ''0x'' ?a)) =
      [''--did'', ''0x0374'', ''--vid'', ''0x0bda'', ''--seconds'', ''7'', ''--probe'']"
    by (simp add: to_options_def hex4_digits decimal.simps char_of_def bit_Suc_0_iff)
  with parse_roundtrip [of "''0x''" ?a] show ?thesis by simp
qed

end
