(* ===== verification/Runtime.thy ===== *)
theory Runtime
  imports Loop_Contract Advertising "HOL-Library.Sublist"
begin

text \<open>
  \<^verbatim>\<open>Runtime\<close> of btstack-core/src/runtime.rs: the worker thread from its thread-locals to its
  result, \<^verbatim>\<open>start_with_advertising\<close> up to the wait for readiness, \<^verbatim>\<open>notify\<close>,
  \<^verbatim>\<open>shutdown\<close>, and the process-wide ACTIVE flag that admits one runtime at a time.
\<close>

section \<open>The process\<close>

text \<open>
  What outlives a worker thread: ACTIVE, NEXT_CONNECTION, the static variables of the shim and of
  BTstack, and the application's state.
\<close>

record ('b, 'w) process =
  ACTIVE :: bool
  NEXT_CONNECTION :: u64
  p_shim :: bridge
  p_stack :: 'b
  p_app :: 'w

text \<open>
  The thread-locals of a new thread are fresh, then TRANSPORT and STATE are set. The event channel
  has two senders, the worker's and its clone in the state.
\<close>

definition new_thread :: "'t \<Rightarrow> ('b, 'w) process \<Rightarrow> ('t, 'b, 'w) world" where
  "new_thread t p =
     \<lparr>transport = Some t,
      server = Some (initial_state\<lparr>events := unbounded\<lparr>senders := 2\<rparr>\<rparr>),
      event_queue = [], failure = None, next_connection = NEXT_CONNECTION p, shim = p_shim p,
      stack = p_stack p, app = p_app p\<rparr>"

text \<open>
  The clock BTstack reads: the milliseconds since the thread's EPOCH as \<^verbatim>\<open>u32\<close>, which wraps
  after 49 days; times are in nanoseconds. A difference of two readings is right across a wrap.
\<close>

definition time_ms :: "nat \<Rightarrow> nat \<Rightarrow> 32 word" where
  "time_ms epoch now = word_of_nat ((now - epoch) div 10 ^ 6)"

lemma time_ms_difference:
  assumes "a \<le> b" and "(b - epoch) div 10 ^ 6 - (a - epoch) div 10 ^ 6 < 2 ^ 32"
  shows "unat (time_ms epoch b - time_ms epoch a) = (b - epoch) div 10 ^ 6 - (a - epoch) div 10 ^ 6"
proof -
  have "(a - epoch) div 10 ^ 6 \<le> (b - epoch) div 10 ^ 6" using assms(1) by (intro div_le_mono) simp
  then have "time_ms epoch b - time_ms epoch a = word_of_nat ((b - epoch) div 10 ^ 6 - (a - epoch) div 10 ^ 6)"
    by (simp add: time_ms_def of_nat_diff)
  with assms(2) show ?thesis by (simp add: unsigned_of_nat take_bit_nat_eq_self)
qed

section \<open>Registering the services\<close>

primrec register_characteristics ::
  "('t, 'b) env \<Rightarrow> 'w gatt_characteristic list \<Rightarrow> ('t, 'b, 'w) world
     \<Rightarrow> ('t, 'b, 'w) world outcome" where
  "register_characteristics env [] w = Returned w"
| "register_characteristics env (c # cs) w =
     (case rs_characteristic env (ch_uuid c) (properties c) w of
        (w', h) \<Rightarrow>
          (case update_server (push_attribute h c) w' of
             Panicked \<Rightarrow> Panicked
           | Returned w'' \<Rightarrow> register_characteristics env cs w''))"

primrec register_services ::
  "('t, 'b) env \<Rightarrow> 'w gatt_service list \<Rightarrow> ('t, 'b, 'w) world \<Rightarrow> ('t, 'b, 'w) world outcome" where
  "register_services env [] w = Returned w"
| "register_services env (s # ss) w =
     (case register_characteristics env (characteristics s) (rs_service env (sv_uuid s) w) of
        Panicked \<Rightarrow> Panicked
      | Returned w' \<Rightarrow> register_services env ss w')"

definition worker_init ::
  "('t, 'b) env \<Rightarrow> bytes \<Rightarrow> 'w gatt_service list \<Rightarrow> ('t, 'b, 'w) world \<Rightarrow> ('t, 'b, 'w) world outcome" where
  "worker_init env name services w = register_services env services (rs_gap_name env name (rs_init env w))"

section \<open>The worker thread\<close>

definition power_on_and_run ::
  "('t, 'b) env \<Rightarrow> bytes \<Rightarrow> run_input list \<Rightarrow> ('t, 'b, 'w) world
     \<Rightarrow> run_local \<times> ('t, 'b, 'w) world \<times> flow" where
  "power_on_and_run env adv inps w =
     (case rs_start env adv w of
        (w', r) \<Rightarrow>
          if r \<noteq> 0 then (run_start, w', Exit (Returned (Inl Power_On_Failed)))
          else run env inps run_start w')"

text \<open>\<^verbatim>\<open>result.and(shutdown_result)\<close>.\<close>

definition result_and :: "error + unit \<Rightarrow> error + unit \<Rightarrow> error + unit" where
  "result_and a b = (case a of Inl e \<Rightarrow> Inl e | Inr _ \<Rightarrow> b)"

text \<open>
  How far the thread has come with the inputs it was given. A finished worker leaves its result, the
  readiness and command answers it sent, the event channel and what outlives it.
\<close>

record worker_end =
  result :: "error + unit"
  log :: run_local
  event_channel :: "server_event channel"

datatype ('t, 'b, 'w) worker_status =
    Running run_local "('t, 'b, 'w) world"
  | Stopping run_local "error + unit" "('t, 'b, 'w) world"
  | Finished worker_end "('t, 'b, 'w) world"
  | Crashed

definition send_error :: "error + unit \<Rightarrow> ('t, 'b, 'w) world \<Rightarrow> ('t, 'b, 'w) world outcome" where
  "send_error r w =
     (case r of Inl e \<Rightarrow> update_server (report (Server_Error e)) w | Inr _ \<Rightarrow> Returned w)"

text \<open>
  The teardown: the error event, \<^verbatim>\<open>rs_deinit\<close>, STATE and TRANSPORT cleared; both senders of
  the event channel are dropped with the state and at the end of the closure.
\<close>

definition worker_finish ::
  "('t, 'b) env \<Rightarrow> run_local \<Rightarrow> error + unit \<Rightarrow> ('t, 'b, 'w) world \<Rightarrow> ('t, 'b, 'w) worker_status" where
  "worker_finish env rl r w =
     (case send_error r w of
        Panicked \<Rightarrow> Crashed
      | Returned w1 \<Rightarrow>
          (let w2 = rs_deinit env w1
           in case server w2 of
                None \<Rightarrow> Crashed
              | Some s \<Rightarrow>
                  Finished \<lparr>result = r, log = rl, event_channel = drop_sender (drop_sender (events s))\<rparr>
                    (w2\<lparr>server := None, transport := None\<rparr>)))"

definition worker_stop ::
  "('t, 'b) env \<Rightarrow> bool list \<Rightarrow> run_local \<Rightarrow> error + unit \<Rightarrow> ('t, 'b, 'w) world
     \<Rightarrow> ('t, 'b, 'w) worker_status" where
  "worker_stop env expired rl r w =
     (case stop_controller env expired w of
        (w', Next) \<Rightarrow> Stopping rl r w'
      | (w', Exit x) \<Rightarrow>
          worker_finish env rl (result_and r (catch_unwind (Inl Shutdown_Panicked) x)) w')"

definition worker ::
  "('t, 'b) env \<Rightarrow> bytes \<Rightarrow> 'w gatt_service list \<Rightarrow> bytes \<Rightarrow> run_input list \<Rightarrow> bool list
     \<Rightarrow> ('t, 'b, 'w) world \<Rightarrow> ('t, 'b, 'w) worker_status" where
  "worker env name services adv inps expired w =
     (case worker_init env name services w of
        Panicked \<Rightarrow> Crashed
      | Returned w1 \<Rightarrow>
          (case power_on_and_run env adv inps w1 of
             (rl, w2, Next) \<Rightarrow> Running rl w2
           | (rl, w2, Exit x) \<Rightarrow>
               worker_stop env expired rl (catch_unwind (Inl Runtime_Panicked) x) w2))"

section \<open>Starting\<close>

text \<open>Validation, then the advertising payload: the explicit one or the name-only default.\<close>

definition prepare :: "bytes \<Rightarrow> 'w gatt_service list \<Rightarrow> advertising_data option \<Rightarrow> error + bytes" where
  "prepare name services adv =
     (case validate name services of
        Inl e \<Rightarrow> Inl e
      | Inr default_adv \<Rightarrow> (case adv of Some d \<Rightarrow> to_bytes d | None \<Rightarrow> Inr default_adv))"

text \<open>The compare-and-exchange of ACTIVE from false to true, and the reset by whoever set it.\<close>

definition reserve :: "('b, 'w) process \<Rightarrow> error + ('b, 'w) process" where
  "reserve p = (if ACTIVE p then Inl Already_Active else Inr (p\<lparr>ACTIVE := True\<rparr>))"

definition unreserve :: "('b, 'w) process \<Rightarrow> ('b, 'w) process" where
  "unreserve p = p\<lparr>ACTIVE := False\<rparr>"

text \<open>
  \<^verbatim>\<open>start_with_advertising\<close> up to the running thread; \<open>spawned\<close> is the result of
  \<^verbatim>\<open>thread::Builder::spawn\<close>. On success it gives the payload the thread advertises.
\<close>

definition launch ::
  "bytes \<Rightarrow> 'w gatt_service list \<Rightarrow> advertising_data option \<Rightarrow> bool \<Rightarrow> ('b, 'w) process
     \<Rightarrow> (error + bytes) \<times> ('b, 'w) process" where
  "launch name services adv spawned p =
     (case prepare name services adv of
        Inl e \<Rightarrow> (Inl e, p)
      | Inr payload \<Rightarrow>
          (case reserve p of
             Inl e \<Rightarrow> (Inl e, p)
           | Inr p' \<Rightarrow> if spawned then (Inr payload, p') else (Inl Spawn_Failed, unreserve p')))"

text \<open>
  The wait for readiness. \<open>signals\<close> is the number of signals sent when the 25 seconds were over or the
  thread dropped its end; without one, \<^verbatim>\<open>start\<close> stops and joins the thread and reports the
  thread's own error if it has one.
\<close>

definition await_ready :: "nat \<Rightarrow> (error + unit) outcome \<Rightarrow> error + unit" where
  "await_ready signals joined =
     (if 1 \<le> signals then Inr ()
      else case joined of
             Panicked \<Rightarrow> Inl Thread_Panicked
           | Returned (Inl e) \<Rightarrow> Inl e
           | Returned (Inr _) \<Rightarrow> Inl Startup_Timed_Out)"

section \<open>Calls on a running server\<close>

text \<open>
  The thread that calls: another thread, whose STATE is empty, or the stack thread, inside a GATT
  handler (which runs while STATE is mutably borrowed) or outside one (the transport's callbacks).
\<close>

datatype caller = Other_Thread | Stack_Thread | Stack_Thread_In_Handler

text \<open>\<^verbatim>\<open>STATE.with(|s| s.borrow().is_some())\<close>: a shared borrow of a mutably borrowed cell panics.\<close>

definition state_is_some :: "caller \<Rightarrow> bool outcome" where
  "state_is_some k =
     (case k of
        Other_Thread \<Rightarrow> Returned False
      | Stack_Thread \<Rightarrow> Returned True
      | Stack_Thread_In_Handler \<Rightarrow> Panicked)"

text \<open>
  \<^verbatim>\<open>Runtime::notify\<close>; \<open>i\<close> names the answer channel it creates and \<open>answer\<close> is what arrives
  there within three seconds.
\<close>

definition notify ::
  "caller \<Rightarrow> gatt_connection \<Rightarrow> uuid \<Rightarrow> bytes \<Rightarrow> nat \<Rightarrow> (error + unit) option
     \<Rightarrow> command channel \<Rightarrow> (error + unit) outcome \<times> command channel" where
  "notify k c u v i answer ch =
     (case state_is_some k of
        Panicked \<Rightarrow> (Panicked, ch)
      | Returned True \<Rightarrow> (Returned (Inl Called_From_Callback), ch)
      | Returned False \<Rightarrow>
          if 512 < length v then (Returned (Inl Value_Exceeds_512), ch)
          else case try_send (Notify c u v i) ch of
                 (Inl _, ch') \<Rightarrow> (Returned (Inl Queue_Full_Or_Stopped), ch')
               | (Inr _, ch') \<Rightarrow>
                   (Returned (case answer of None \<Rightarrow> Inl Enqueue_Timed_Out | Some r \<Rightarrow> r), ch'))"

text \<open>
  \<^verbatim>\<open>Runtime::shutdown\<close>: \<open>worker_present\<close> is \<^verbatim>\<open>self.worker.is_some()\<close>, \<open>joined\<close> what the
  join returns. It gives the result, the command channel, and whether a worker handle is left;
  \<open>None\<close> while the blocking \<^verbatim>\<open>send\<close> of Stop waits for room in the channel.
\<close>

definition shutdown ::
  "bool \<Rightarrow> bool \<Rightarrow> (error + unit) outcome \<Rightarrow> command channel
     \<Rightarrow> ((error + unit) \<times> command channel \<times> bool) option" where
  "shutdown on_worker worker_present joined ch =
     (if worker_present \<and> on_worker then Some (Inl Join_From_Callback, send_ignored Stop ch, True)
      else if worker_present
      then map_option (\<lambda>ch'. (catch_unwind (Inl Thread_Panicked) joined, ch', False))
             (send_blocking Stop ch)
      else Some (Inr (), ch, False))"

text \<open>
  The object the application holds: its ends of the two channels and the handle of the thread. Dropping
  it shuts it down; \<^verbatim>\<open>recv_timeout\<close> is a receive of an event, without the time it blocks.
\<close>

record runtime =
  commands :: "command channel"
  event_receiver :: "server_event channel"
  worker_handle :: bool

definition runtime_start ::
  "bytes \<Rightarrow> 'w gatt_service list \<Rightarrow> bool \<Rightarrow> ('b, 'w) process \<Rightarrow> (error + bytes) \<times> ('b, 'w) process" where
  "runtime_start name services spawned p = launch name services None spawned p"

definition recv_timeout :: "runtime \<Rightarrow> server_event received \<times> runtime" where
  "recv_timeout rt =
     (case try_recv (event_receiver rt) of (r, ch) \<Rightarrow> (r, rt\<lparr>event_receiver := ch\<rparr>))"

definition runtime_shutdown ::
  "bool \<Rightarrow> (error + unit) outcome \<Rightarrow> runtime \<Rightarrow> ((error + unit) \<times> runtime) option" where
  "runtime_shutdown on_worker joined rt =
     map_option (\<lambda>(r, ch, present). (r, rt\<lparr>commands := ch, worker_handle := present\<rparr>))
       (shutdown on_worker (worker_handle rt) joined (commands rt))"

definition drop_runtime :: "bool \<Rightarrow> (error + unit) outcome \<Rightarrow> runtime \<Rightarrow> runtime option" where
  "drop_runtime on_worker joined rt = map_option snd (runtime_shutdown on_worker joined rt)"

section \<open>The contract of the start-up\<close>

text \<open>The contract of the loops extended with the writes between the thread's start and the loop.\<close>

locale startup_invariant = loop_invariant +
  assumes I_attribute: "\<lbrakk> I w; server w = Some s \<rbrakk> \<Longrightarrow> I (w\<lparr>server := Some (push_attribute h ch s)\<rparr>)"
    and I_advertising: "I w \<Longrightarrow> I (w\<lparr>shim := copy_advertising adv (shim w)\<rparr>)"
    and I_requested: "I w \<Longrightarrow> I (w\<lparr>shim := (shim w)\<lparr>advertising_requested := True\<rparr>\<rparr>)"
begin

lemma rs_characteristic_keeps: "\<lbrakk> I w; rs_characteristic env u props w = (w', h) \<rbrakk> \<Longrightarrow> I w'"
  using call_c_keeps [of w "Add_Characteristic_Uuid128 u (props OR ATT_PROPERTY_DYNAMIC (env_btstack env))"]
  by (auto simp: rs_characteristic_def split: prod.splits)

lemma register_characteristics_keeps:
  "\<lbrakk> I w; register_characteristics env cs w = Returned w' \<rbrakk> \<Longrightarrow> I w'"
proof (induction cs arbitrary: w)
  case (Cons c cs)
  obtain w1 h where r: "rs_characteristic env (ch_uuid c) (properties c) w = (w1, h)"
    by (cases "rs_characteristic env (ch_uuid c) (properties c) w")
  from rs_characteristic_keeps [OF Cons.prems(1) r] have "I w1" .
  with Cons.IH [OF I_attribute [OF \<open>I w1\<close>]] Cons.prems(2) r show ?case
    by (auto simp: update_server_def split: option.splits)
qed simp

lemma register_services_keeps:
  "\<lbrakk> I w; register_services env ss w = Returned w' \<rbrakk> \<Longrightarrow> I w'"
proof (induction ss arbitrary: w)
  case (Cons s ss)
  have "I (rs_service env (sv_uuid s) w)"
    unfolding rs_service_def by (rule call_c_keeps [OF Cons.prems(1)])
  with Cons.prems(2) Cons.IH register_characteristics_keeps show ?case
    by (auto split: outcome.splits)
qed simp

lemma worker_init_keeps:
  "\<lbrakk> I (w\<lparr>shim := bridge_init (shim w)\<rparr>); worker_init env name ss w = Returned w' \<rbrakk> \<Longrightarrow> I w'"
  unfolding worker_init_def rs_gap_name_def rs_init_def
  by (erule register_services_keeps [rotated]) (intro call_all_keeps)

lemma power_on_and_run_keeps:
  assumes "I w" and "power_on_and_run env adv inps w = (rl, w', f)"
  shows "I w'"
proof -
  have "I (fst (rs_start env adv w))"
    unfolding rs_start_def Let_def
    by (intro call_c_keeps call_all_keeps I_requested I_advertising assms(1))
  with assms(2) show ?thesis
    by (auto simp: power_on_and_run_def dest: run_keeps split: prod.splits if_splits)
qed

end

interpretation startup_ok: startup_invariant env "\<lambda>_ _ _. True" world_ok for env
proof (unfold_locales, goal_cases)
  case (1 w s h ch)
  then show ?case using world_ok_state [OF 1] by (simp add: world_ok_server state_ok_push_attribute)
next
  case (2 w adv)
  then show ?case by (simp add: world_ok_def copy_advertising_def bridge_ok_def busy_handles_def)
next
  case (3 w)
  then show ?case by (simp add: world_ok_def bridge_ok_def busy_handles_def)
qed

lemma state_ok_events [simp]: "state_ok (s\<lparr>events := ch\<rparr>) = state_ok s"
  by (simp add: state_ok_defs)

lemma new_thread_ok: "world_ok ((new_thread t p)\<lparr>shim := bridge_init (shim (new_thread t p))\<rparr>)"
  by (simp add: world_ok_def new_thread_def state_ok_initial bridge_ok_init)

text \<open>Registration cannot panic: the state is there.\<close>

lemma register_characteristics_returns:
  "world_ok w \<Longrightarrow> \<exists>w'. register_characteristics env cs w = Returned w'"
proof (induction cs arbitrary: w)
  case (Cons c cs)
  obtain w1 h where r: "rs_characteristic env (ch_uuid c) (properties c) w = (w1, h)"
    by (cases "rs_characteristic env (ch_uuid c) (properties c) w")
  from update_server_ok [OF startup_ok.rs_characteristic_keeps [OF Cons.prems r], of "push_attribute h c"]
  obtain w2 where "update_server (push_attribute h c) w1 = Returned w2" "world_ok w2"
    by (auto simp: state_ok_push_attribute)
  with Cons.IH [of w2] r show ?case by simp
qed simp

lemma register_services_returns: "world_ok w \<Longrightarrow> \<exists>w'. register_services env ss w = Returned w'"
proof (induction ss arbitrary: w)
  case (Cons s ss)
  have ok: "world_ok (rs_service env (sv_uuid s) w)"
    unfolding rs_service_def by (rule ok_inv.call_c_keeps [OF Cons.prems])
  from register_characteristics_returns [OF ok, of env "characteristics s"] obtain w1 where
    w1: "register_characteristics env (characteristics s) (rs_service env (sv_uuid s) w) = Returned w1"
    by blast
  from Cons.IH [OF startup_ok.register_characteristics_keeps [OF ok w1]] w1 show ?case by simp
qed simp

lemma worker_init_ok:
  "\<exists>w. worker_init env name services (new_thread t p) = Returned w \<and> world_ok w"
proof -
  have "world_ok (rs_gap_name env name (rs_init env (new_thread t p)))"
    unfolding rs_gap_name_def rs_init_def by (intro ok_inv.call_all_keeps new_thread_ok)
  then obtain w where w: "worker_init env name services (new_thread t p) = Returned w"
    using register_services_returns unfolding worker_init_def by blast
  from startup_ok.worker_init_keeps [OF new_thread_ok w] w show ?thesis by simp
qed

section \<open>The event channel stays open\<close>

text \<open>
  While the state exists its event channel has both senders, its receiver and no bound, so a
  reported event is always queued, behind the earlier ones, and what is queued stays queued.
\<close>

definition events_open :: "server_event list \<Rightarrow> server_event list \<Rightarrow> ('t, 'b, 'w) world \<Rightarrow> bool" where
  "events_open ps xs w \<longleftrightarrow>
     (\<exists>s. server w = Some s \<and> senders (events s) = 2 \<and> receiver_alive (events s)
        \<and> capacity (events s) = None \<and> prefix ps (queued (events s)) \<and> set xs \<subseteq> set (queued (events s)))"

lemma queued_send_open:
  "\<lbrakk> receiver_alive c; capacity c = None \<rbrakk> \<Longrightarrow> queued (send_ignored x c) = queued c @ [x]"
  by (simp add: send_ignored_def try_send_def has_room_def)

lemma events_open_server:
  assumes "events_open ps xs w" and "server w = Some s" and "events s' = events s"
    and "server w' = Some s'"
  shows "events_open ps xs w'"
  using assms by (auto simp: events_open_def)

lemma events_open_report:
  assumes "events_open ps xs w" and "server w = Some s" and "events s' = send_ignored e (events s)"
    and "server w' = Some s'"
  shows "events_open ps xs w' \<and> events_open ps (e # xs) w'"
  using assms by (auto simp: events_open_def queued_send_open)

lemma events_open_cong: "server w' = server w \<Longrightarrow> events_open ps xs w' = events_open ps xs w"
  by (simp add: events_open_def)

lemma events_open_read: "events_open ps xs w \<Longrightarrow> events_open ps xs (fst (do_att_read env c a off null n w))"
proof -
  assume e: "events_open ps xs w"
  then obtain s where s: "server w = Some s" by (auto simp: events_open_def)
  obtain s' where "server (fst (do_att_read env c a off null n w)) = Some s'" "events s' = events s"
    using do_att_read_server [OF s, of env c a off null n] by metis
  with events_open_server [OF e s] show ?thesis by blast
qed

lemma write_body_events:
  assumes "write_body oc ap s connection attribute v = (ap', s', r)"
  shows "events s' = events s \<or> (\<exists>e. events s' = send_ignored e (events s))"
  using write_body_state [OF assms] by (auto simp: set_subscription_def)

lemma events_open_write: "events_open ps xs w \<Longrightarrow> events_open ps xs (fst (do_att_write env c a mode off bs n w))"
proof -
  assume e: "events_open ps xs w"
  then obtain s where s: "server w = Some s" by (auto simp: events_open_def)
  let ?v = "if n = 0 then [] else take (unat n) bs"
  obtain ap' s' r where b: "write_body (overflow_checks env) (app w) s c a ?v = (ap', s', r)"
    by (cases "write_body (overflow_checks env) (app w) s c a ?v")
  have "server (fst (do_att_write env c a mode off bs n w)) = Some s \<or>
      server (fst (do_att_write env c a mode off bs n w)) = Some s'"
    using b s by (simp add: do_att_write_def att_write_def)
  with write_body_events [OF b] events_open_server [OF e s] events_open_report [OF e s] show ?thesis
    by blast
qed

lemma connection_event_events:
  assumes "connection_event kind h v w = (w', f)" and "server w = Some s"
  shows "\<exists>s'. server w' = Some s' \<and> (events s' = events s \<or> (\<exists>e. events s' = send_ignored e (events s)))"
proof -
  have "events (handle_connected (next_connection w) h v s) = send_ignored
      (Connected \<lparr>conn_handle = h, generation = next_connection w, mtu = v\<rparr>) (events s)"
    by (simp add: handle_connected_def Let_def)
  moreover have "events (handle_disconnected h s) = events s \<or>
      (\<exists>e. events (handle_disconnected h s) = send_ignored e (events s))"
    by (cases "connections s h") (auto simp: handle_disconnected_def Let_def)
  moreover have "events (handle_mtu h v s) = events s" by simp
  ultimately show ?thesis
    using assms by (auto simp: connection_event_def split: if_splits)
qed

interpretation open_inv: startup_invariant env "\<lambda>_ _ _. True" "events_open ps xs" for env ps xs
proof (unfold_locales, goal_cases)
  case (3 w c a off null n)
  then show ?case by (rule events_open_read)
next
  case (4 w c a mode off bs n)
  then show ?case by (rule events_open_write)
next
  case (10 w s c u bs s')
  then have "events s' = events s" by (auto simp: enqueue_Inr_iff)
  with 10 show ?case by (auto intro: events_open_server)
next
  case (11 w s h n s')
  then show ?case using take_pending_frame(5) [OF 11(3)] by (auto intro: events_open_server)
next
  case (12 w s ev)
  then show ?case by (auto simp: events_open_def queued_send_open)
next
  case (13 w kind h v w' f)
  then obtain s where s: "server w = Some s" by (auto simp: events_open_def)
  from connection_event_events [OF 13(2) s] obtain s' where
    "server w' = Some s'" "events s' = events s \<or> (\<exists>e. events s' = send_ignored e (events s))"
    by blast
  with events_open_server [OF 13(1) s] events_open_report [OF 13(1) s] show ?case by blast
qed (simp_all add: events_open_def)

section \<open>The worker's end\<close>

lemma new_thread_events: "events_open [] [] ((new_thread t p)\<lparr>shim := bridge_init (shim (new_thread t p))\<rparr>)"
  by (simp add: events_open_def new_thread_def unbounded_def)

text \<open>What a finished worker has left behind.\<close>

definition clean_end :: "worker_end \<Rightarrow> ('t, 'b, 'w) world \<Rightarrow> bool" where
  "clean_end e w \<longleftrightarrow>
     server w = None \<and> transport w = None \<and> senders (event_channel e) = 0
     \<and> (\<forall>err. result e = Inl err \<longrightarrow> Server_Error err \<in> set (queued (event_channel e)))"

lemma worker_finish_clean:
  assumes "events_open ps [] w"
  shows "\<exists>e w'. worker_finish env rl r w = Finished e w' \<and> result e = r \<and> log e = rl \<and> clean_end e w'
    \<and> prefix ps (queued (event_channel e))"
proof -
  from assms obtain s where s: "server w = Some s" by (auto simp: events_open_def)
  let ?xs = "case r of Inl e \<Rightarrow> [Server_Error e] | Inr _ \<Rightarrow> []"
  have "\<exists>w1. send_error r w = Returned w1 \<and> events_open ps ?xs w1"
  proof (cases r)
    case (Inl e)
    have "events_open ps [Server_Error e] (w\<lparr>server := Some (report (Server_Error e) s)\<rparr>)"
      using events_open_report [OF assms s, where e = "Server_Error e" and s' = "report (Server_Error e) s"
          and w' = "w\<lparr>server := Some (report (Server_Error e) s)\<rparr>"] by simp
    with Inl s show ?thesis by (simp add: send_error_def update_server_def)
  next
    case (Inr u)
    with assms show ?thesis by (simp add: send_error_def)
  qed
  then obtain w1 where w1: "send_error r w = Returned w1" "events_open ps ?xs w1" by blast
  have "events_open ps ?xs (rs_deinit env w1)"
    unfolding rs_deinit_def by (rule open_inv.call_all_keeps [OF w1(2)])
  then obtain s2 where "server (rs_deinit env w1) = Some s2" "senders (events s2) = 2"
    "prefix ps (queued (events s2))" "set ?xs \<subseteq> set (queued (events s2))" by (auto simp: events_open_def)
  with w1(1) show ?thesis
    by (auto simp: worker_finish_def Let_def clean_end_def drop_sender_def)
qed

lemma worker_stop_cases:
  assumes "events_open ps [] w"
  shows "(\<exists>w'. worker_stop env expired rl r w = Stopping rl r w')
    \<or> (\<exists>e w'. worker_stop env expired rl r w = Finished e w' \<and> clean_end e w' \<and> prefix ps (queued (event_channel e))
         \<and> (result e = Inr () \<longrightarrow> r = Inr ()) \<and> log e = rl)"
proof -
  obtain w1 f where s: "stop_controller env expired w = (w1, f)" by (cases "stop_controller env expired w")
  show ?thesis
  proof (cases f)
    case Next
    with s show ?thesis by (simp add: worker_stop_def)
  next
    case (Exit x)
    from worker_finish_clean [OF open_inv.stop_controller_keeps [OF assms s]] s Exit show ?thesis
      by (fastforce simp: worker_stop_def result_and_def split: sum.splits)
  qed
qed

lemma worker_cases:
  fixes env :: "('t, 'b) env" and services :: "'w gatt_service list"
  assumes "worker env name services adv inps expired (new_thread t p) = st"
  obtains w1 rl w2 f where "worker_init env name services (new_thread t p) = Returned w1"
    "power_on_and_run env adv inps w1 = (rl, w2, f)" "events_open [] [] w2" "world_ok w2"
    "st = (case f of Next \<Rightarrow> Running rl w2
       | Exit x \<Rightarrow> worker_stop env expired rl (catch_unwind (Inl Runtime_Panicked) x) w2)"
proof -
  obtain w1 where w1: "worker_init env name services (new_thread t p) = Returned w1" "world_ok w1"
    using worker_init_ok [of env name services t p] by auto
  obtain rl w2 f where r: "power_on_and_run env adv inps w1 = (rl, w2, f)"
    by (cases "power_on_and_run env adv inps w1") auto
  from open_inv.power_on_and_run_keeps [OF open_inv.worker_init_keeps [OF new_thread_events w1(1)] r]
    startup_ok.power_on_and_run_keeps [OF w1(2) r]
  have "events_open [] [] w2" "world_ok w2" .
  with that w1(1) r assms show thesis by (cases f) (simp_all add: worker_def)
qed

end
