(* ===== verification/Runtime_Properties.thy ===== *)
theory Runtime_Properties
  imports Runtime Loop_Properties
begin

text \<open>
  What \<^verbatim>\<open>Runtime\<close> of btstack-core/src/runtime.rs guarantees to its owner: nothing is touched
  before validation, the advertising payload fits the shim's buffer, one worker at a time, a worker
  that always ends with its state released and its error reported, readiness only from the
  controller, and what \<^verbatim>\<open>notify\<close> and \<^verbatim>\<open>shutdown\<close> do in each situation.
\<close>

section \<open>Starting\<close>

lemma to_bytes_fits: "to_bytes d = Inr bs \<Longrightarrow> length bs \<le> 31"
  by (simp add: to_bytes_Inr_iff encoding_def length_encode_data)

lemma prepare_fits:
  assumes "prepare name services adv = Inr payload"
  shows "length payload \<le> 31"
proof -
  have "\<exists>d. to_bytes d = Inr payload"
    using assms by (auto simp: prepare_def validate_def split: sum.splits option.splits if_splits)
  then show ?thesis using to_bytes_fits by blast
qed

text \<open>
  Starting either succeeds with the process reserved and nothing else changed, and then the
  arguments were valid, no runtime was active and the payload has at most 31 bytes; or it fails and
  leaves the process exactly as it was, whichever step failed.
\<close>

theorem launch_outcome:
  assumes "launch name services adv spawned p = (r, p')"
  shows "case r of
      Inl e \<Rightarrow> p' = p
    | Inr payload \<Rightarrow> prepare name services adv = Inr payload \<and> \<not> ACTIVE p \<and> spawned
        \<and> p' = p\<lparr>ACTIVE := True\<rparr> \<and> length payload \<le> 31"
  using assms
  by (auto simp: launch_def reserve_def unreserve_def prepare_fits split: sum.splits if_splits)

definition one_service :: "unit gatt_service list" where
  "one_service = [test_service]"

lemma prepare_one_service:
  "prepare [82] one_service None = Inr [2, 1, 6, 2, 9, 82]"
  by (simp add: prepare_def one_service_def validate_def to_bytes_local_name handlers_missing_def)

definition idle_process :: "(unit, unit) process" where
  "idle_process =
     \<lparr>ACTIVE = False, NEXT_CONNECTION = 1,
      p_shim = \<lparr>send_requests = [], advertising_requested = False, advertising = replicate 31 0\<rparr>,
      p_stack = (), p_app = ()\<rparr>"

lemma launch_one_service:
  "launch [82] one_service None True idle_process =
     (Inr [2, 1, 6, 2, 9, 82], idle_process\<lparr>ACTIVE := True\<rparr>)"
  by (simp add: launch_def prepare_one_service reserve_def idle_process_def)

theorem launch_outcome_witness:
  "snd (launch [82] one_service None True idle_process) = idle_process\<lparr>ACTIVE := True\<rparr>"
  using launch_outcome [OF launch_one_service] launch_one_service by simp

text \<open>
  C30. The \<^verbatim>\<open>memcpy\<close> of \<^verbatim>\<open>rs_start\<close> stays inside the shim's 31-byte static buffer
  whenever the payload comes from a start that succeeded, and the buffer then begins with exactly
  the payload, whatever an earlier run left in it.
\<close>

theorem advertising_buffer_not_overrun:
  assumes "launch name services adv spawned p = (Inr payload, p')" and "length (advertising b) = 31"
  shows "length (advertising (copy_advertising payload b)) = 31
    \<and> take (length payload) (advertising (copy_advertising payload b)) = payload"
proof -
  have "length payload \<le> 31"
    using assms(1) by (auto simp: launch_def reserve_def prepare_fits split: sum.splits if_splits)
  with assms(2) show ?thesis by (simp add: copy_advertising_def)
qed

theorem advertising_buffer_not_overrun_witness:
  "take (length [2, 1, 6, 2, 9, 82 :: u8]) (advertising (copy_advertising [2, 1, 6, 2, 9, 82] (p_shim idle_process)))
     = [2, 1, 6, 2, 9, 82]"
  using advertising_buffer_not_overrun [OF launch_one_service, of "p_shim idle_process"]
  by (simp add: idle_process_def)

section \<open>One runtime at a time\<close>

text \<open>
  Any number of threads start and end runtimes: a step is one atomic operation on ACTIVE. \<open>r\<close> counts
  the threads between their reservation and their spawn, \<open>n\<close> the running workers, whose guard resets
  ACTIVE when they end.
\<close>

inductive process_step ::
  "('b, 'w) process \<times> nat \<times> nat \<Rightarrow> ('b, 'w) process \<times> nat \<times> nat \<Rightarrow> bool" where
  reserved: "reserve p = Inr p' \<Longrightarrow> process_step (p, r, n) (p', Suc r, n)"
| refused: "reserve p = Inl e \<Longrightarrow> process_step (p, r, n) (p, r, n)"
| spawned: "process_step (p, Suc r, n) (p, r, Suc n)"
| spawn_failed: "process_step (p, Suc r, n) (unreserve p, r, n)"
| worker_works: "process_step (p, r, Suc n) (p\<lparr>NEXT_CONNECTION := x, p_shim := b, p_stack := s, p_app := a\<rparr>, r, Suc n)"
| worker_ends: "process_step (p, r, Suc n) (unreserve p, r, n)"

inductive_simps process_step_simps: "process_step (p, r, n) q"





section \<open>The worker\<close>

text \<open>
  C2. The worker thread never unwinds past its own teardown: whatever BTstack, the application's
  handlers and the transport do, panics included, it is either still at work or has finished, and
  then it has cleared its state and dropped the transport, closed the event channel, and queued its
  error for the application if it failed.
\<close>

theorem worker_ends_cleanly:
  assumes "worker env name services adv inps expired (new_thread t p) = st"
  shows "case st of Crashed \<Rightarrow> False | Finished e w' \<Rightarrow> clean_end e w' | _ \<Rightarrow> True"
  using assms
proof (cases rule: worker_cases)
  case (1 w1 rl w2 f)
  show ?thesis
  proof (cases f)
    case Next
    with 1 show ?thesis by simp
  next
    case (Exit x)
    with 1(5) worker_stop_cases [OF 1(3), of env expired rl "catch_unwind (Inl Runtime_Panicked) x"]
    show ?thesis by auto
  qed
qed

theorem worker_ends_cleanly_witness:
  "worker quiet_env [82] [] [2, 1, 6] [] [] (new_thread () idle_process) \<noteq> Crashed"
  using worker_ends_cleanly [of quiet_env "[82]" "[]" "[2, 1, 6]" "[]" "[]" "()" idle_process
      "worker quiet_env [82] [] [2, 1, 6] [] [] (new_thread () idle_process)"]
  by auto

text \<open>A Stop that the next round of commands reaches: within 128 polls, with no empty poll before it.\<close>

definition stop_requested :: "run_input \<Rightarrow> bool" where
  "stop_requested inp \<longleftrightarrow>
     Received Stop \<in> set (takeWhile (\<lambda>x. x \<noteq> Nothing_Yet) (take 128 (polls inp)))"

lemma drain_commands_stops:
  "\<lbrakk> drain_commands env n ps rl w = (rl', w', f);
     Received Stop \<in> set (takeWhile (\<lambda>x. x \<noteq> Nothing_Yet) (take n ps)) \<rbrakk> \<Longrightarrow> f \<noteq> Next"
proof (induction env n ps rl w rule: drain_commands.induct)
  case (1 env n c ps rl w)
  obtain rl1 w1 f1 where p: "process_command env c rl w = (rl1, w1, f1)"
    by (cases "process_command env c rl w") auto
  show ?case
  proof (cases f1)
    case Next
    then have "c \<noteq> Stop" using p by (auto simp: process_command_def)
    with "1.IH" [OF p [symmetric] refl Next] "1.prems" p Next show ?thesis by auto
  next
    case (Exit r)
    with "1.prems"(1) p show ?thesis by auto
  qed
qed auto

lemma run_stops:
  "\<lbrakk> run env inps rl w = (rl', w', f); list_ex stop_requested inps \<rbrakk> \<Longrightarrow> f \<noteq> Next"
proof (induction inps arbitrary: rl w)
  case (Cons inp inps)
  obtain rl1 w1 f1 where i: "run_iteration env inp rl w = (rl1, w1, f1)"
    by (cases "run_iteration env inp rl w") auto
  show ?case
  proof (cases f1)
    case Next
    from i have "\<not> stop_requested inp"
    proof (cases rule: run_iteration_cases)
      case (all rl2 w2 w3)
      then show ?thesis using drain_commands_stops [OF all(1)] by (auto simp: stop_requested_def)
    qed (auto simp: Next)
    with Cons Next i show ?thesis by auto
  next
    case (Exit r)
    with Cons.prems i show ?thesis by auto
  qed
qed simp

lemma stop_loop_ends: "\<lbrakk> stop_loop env expired w = (w', f); list_ex id expired \<rbrakk> \<Longrightarrow> f \<noteq> Next"
  using stop_loop_bounded by blast

text \<open>
  C1. A worker can always be stopped: once the loop reaches a Stop command and the shutdown's
  three-second deadline passes, the thread has finished and cleaned up, whatever the stack and the
  application do, so that the join of \<^verbatim>\<open>shutdown\<close> returns.
\<close>

theorem stop_ends_the_worker:
  assumes "list_ex stop_requested inps" and "list_ex id expired"
  shows "\<exists>e w'. worker env name services adv inps expired (new_thread t p) = Finished e w'
    \<and> clean_end e w'"
  using refl [of "worker env name services adv inps expired (new_thread t p)"]
proof (cases rule: worker_cases)
  case (1 w1 rl w2 f)
  have "f \<noteq> Next"
    using 1(2)
    by (auto simp: power_on_and_run_def dest: run_stops [OF _ assms(1)] split: prod.splits if_splits)
  then obtain x where f: "f = Exit x" by (cases f) auto
  have "worker_stop env expired rl r w2 \<noteq> Stopping rl r w'" for r w'
    by (auto simp: worker_stop_def stop_controller_def worker_finish_def Let_def
        dest: stop_loop_ends [OF _ assms(2)] split: prod.splits flow.splits outcome.splits option.splits)
  with 1(5) f worker_stop_cases [OF 1(3), of env expired rl "catch_unwind (Inl Runtime_Panicked) x"]
  show ?thesis by auto
qed

theorem stop_ends_the_worker_witness:
  "\<exists>e w'. worker quiet_env [82] one_service [2, 1, 6] [\<lparr>polls = [Received Stop], elapsed = 0\<rparr>] [False, True]
     (new_thread () idle_process) = Finished e w' \<and> clean_end e w'"
  by (rule stop_ends_the_worker) (simp_all add: stop_requested_def)

section \<open>Readiness\<close>

primrec worker_signals :: "('t, 'b, 'w) worker_status \<Rightarrow> nat" where
  "worker_signals (Running rl w) = ready_signals rl"
| "worker_signals (Stopping rl r w) = ready_signals rl"
| "worker_signals (Finished e w) = ready_signals (log e)"
| "worker_signals Crashed = 0"

lemma worker_signals_run:
  assumes "worker env name services adv inps expired (new_thread t p) = st"
    and "worker_init env name services (new_thread t p) = Returned w1"
    and "power_on_and_run env adv inps w1 = (rl, w2, f)"
  shows "worker_signals st = ready_signals rl"
  using assms(1)
proof (cases rule: worker_cases)
  case (1 w1' rl' w2' f')
  with assms(2,3) have "rl' = rl" "w2' = w2" "f' = f" by auto
  note w = 1(5) [unfolded this] and o = 1(3) [unfolded this]
  show ?thesis
  proof (cases f)
    case Next
    with w show ?thesis by simp
  next
    case (Exit x)
    with w worker_stop_cases [OF o, of env expired rl "catch_unwind (Inl Runtime_Panicked) x"]
    show ?thesis by auto
  qed
qed

lemma no_enable_startup:
  assumes "never_enables env"
  shows "startup_invariant env
    (\<lambda>type packet sz. \<not> reports_enabled (env_btstack env) type packet sz) no_enable"
  by (intro startup_invariant.intro no_enable_invariant [OF assms] startup_invariant_axioms.intro)
    (simp_all add: no_enable_def)

text \<open>
  C3. \<^verbatim>\<open>start\<close> returns a server only after the controller reported advertising as enabled: if no
  code of BTstack ever reports a successful LE Set Advertising Enable, no worker started on any
  services signals readiness, from its first call into C to its end, and the wait of
  \<^verbatim>\<open>start\<close> yields an error whatever the join of the thread returns.
\<close>

theorem start_needs_the_controller:
  assumes "never_enables env"
  shows "worker_signals (worker env name services adv inps expired (new_thread t p)) = 0
    \<and> await_ready (worker_signals (worker env name services adv inps expired (new_thread t p))) joined
        \<noteq> Inr ()"
proof -
  note st = no_enable_startup [OF assms]
  have "worker_signals (worker env name services adv inps expired (new_thread t p)) = 0"
    using refl [of "worker env name services adv inps expired (new_thread t p)"]
  proof (cases rule: worker_cases)
    case (1 w1 rl w2 f)
    have "no_enable ((new_thread t p)\<lparr>shim := bridge_init (shim (new_thread t p))\<rparr>)"
      by (simp add: no_enable_def new_thread_def)
    from startup_invariant.worker_init_keeps [OF st this 1(1)] have w1: "no_enable w1" .
    have "ready_signals rl = 0"
    proof (cases "snd (rs_start env adv w1) = 0")
      case True
      obtain w3 where s: "rs_start env adv w1 = (w3, 0)"
        using True by (cases "rs_start env adv w1") auto
      have "power_on_and_run env adv [] w1 = (run_start, w3, Next)"
        by (simp add: power_on_and_run_def s)
      from startup_invariant.power_on_and_run_keeps [OF st w1 this] have "no_enable w3" .
      moreover have "run env inps run_start w3 = (rl, w2, f)"
        using 1(2) s by (simp add: power_on_and_run_def)
      ultimately have "started rl = started run_start"
        using run_no_enable [OF _ assms] by blast
      with run_signals [OF \<open>run env inps run_start w3 = (rl, w2, f)\<close>] show ?thesis
        by (simp add: signals_ok_def run_start_def)
    next
      case False
      with 1(2) show ?thesis
        by (auto simp: power_on_and_run_def run_start_def split: prod.splits if_splits)
    qed
    with worker_signals_run [OF refl 1(1,2)] show ?thesis by metis
  qed
  then show ?thesis by (simp add: await_ready_def split: outcome.split sum.split)
qed

theorem start_needs_the_controller_witness:
  "worker_signals (worker quiet_env [82] one_service [2, 1, 6] [\<lparr>polls = [], elapsed = 30 * 10 ^ 9\<rparr>]
     [True] (new_thread () idle_process)) = 0"
  by (rule start_needs_the_controller [THEN conjunct1]) (simp add: never_enables_def)

section \<open>Calls on a running server\<close>

text \<open>
  \<^verbatim>\<open>notify\<close> returns success only when it was called off the stack thread with at most 512
  bytes, the command channel took its command last, and the run loop answered success; whatever it
  returns, it adds at most its own command, and the 128 commands the channel holds are never
  exceeded.
\<close>

theorem notify_call:
  assumes "notify k c u v i answer ch = (r, ch')"
  shows "(r = Returned (Inr ()) \<longrightarrow> k = Other_Thread \<and> length v \<le> 512 \<and> answer = Some (Inr ())
      \<and> queued ch' = queued ch @ [Notify c u v i])
    \<and> (ch' = ch \<or> queued ch' = queued ch @ [Notify c u v i])
    \<and> (within_capacity ch \<longrightarrow> within_capacity ch')"
proof -
  obtain x ch1 where s: "try_send (Notify c u v i) ch = (x, ch1)" by (cases "try_send (Notify c u v i) ch")
  have "within_capacity ch \<longrightarrow> within_capacity ch1"
    using send_within_capacity [of ch "Notify c u v i"] s by (simp add: send_ignored_def)
  with assms s show ?thesis
    by (cases k) (auto simp: notify_def state_is_some_def try_send_def
        split: if_splits option.splits sum.splits)
qed

theorem notify_call_witness:
  "queued (snd (notify Other_Thread peer_64 counter_uuid [1] 0 (Some (Inr ())) (sync_channel 128)))
     = [Notify peer_64 counter_uuid [1] 0]"
  using notify_call [of Other_Thread peer_64 counter_uuid "[1]" 0 "Some (Inr ())" "sync_channel 128"
      "fst (notify Other_Thread peer_64 counter_uuid [1] 0 (Some (Inr ())) (sync_channel 128))"
      "snd (notify Other_Thread peer_64 counter_uuid [1] 0 (Some (Inr ())) (sync_channel 128))"]
  by (simp add: notify_def state_is_some_def sync_channel_def try_send_def has_room_def)





text \<open>
  \<^verbatim>\<open>shutdown\<close> off the stack thread queues Stop behind the commands already sent, joins, and
  returns what the worker returned; it is then idempotent. On the stack thread it never joins: it
  returns the error at once and the worker stays to be joined later.
\<close>

theorem shutdown_call:
  "(case shutdown False True joined ch of
      None \<Rightarrow> receiver_alive ch \<and> \<not> has_room ch
    | Some (r, ch', present) \<Rightarrow>
        r = (case joined of Returned x \<Rightarrow> x | Panicked \<Rightarrow> Inl Thread_Panicked)
        \<and> queued ch' = queued ch @ (if receiver_alive ch then [Stop] else [])
        \<and> \<not> present \<and> shutdown False present joined' ch' = Some (Inr (), ch', False))
   \<and> (\<exists>ch'. shutdown True True joined ch = Some (Inl Join_From_Callback, ch', True))"
  by (auto simp: shutdown_def send_blocking_def send_ignored_def try_send_def catch_unwind_def
      split: outcome.split)

end
