(* ===== verification/Server_Builder.thy ===== *)
theory Server_Builder
  imports Runtime_Properties
begin

text \<open>
  btstack-gatt/src/lib.rs: the builder of a GATT server, whose settings decide the name, the services
  and the advertising payload that \<^verbatim>\<open>Runtime::start_with_advertising\<close> gets. The running
  server's other methods forward to \<open>Runtime\<close>.
\<close>

record ('t, 'w) server_builder =
  sb_transport :: 't
  sb_name :: bytes
  sb_services :: "'w gatt_service list"
  sb_advertising :: "advertising_data option"

text \<open>The default name \<^verbatim>\<open>Rust GATT\<close>.\<close>

definition builder :: "'t \<Rightarrow> ('t, 'w) server_builder" where
  "builder t =
     \<lparr>sb_transport = t, sb_name = [0x52, 0x75, 0x73, 0x74, 0x20, 0x47, 0x41, 0x54, 0x54],
      sb_services = [], sb_advertising = None\<rparr>"

definition with_name :: "bytes \<Rightarrow> ('t, 'w) server_builder \<Rightarrow> ('t, 'w) server_builder" where
  "with_name n b = b\<lparr>sb_name := n\<rparr>"

definition with_service :: "'w gatt_service \<Rightarrow> ('t, 'w) server_builder \<Rightarrow> ('t, 'w) server_builder" where
  "with_service s b = b\<lparr>sb_services := sb_services b @ [s]\<rparr>"

definition with_advertising_data ::
  "advertising_data \<Rightarrow> ('t, 'w) server_builder \<Rightarrow> ('t, 'w) server_builder" where
  "with_advertising_data d b = b\<lparr>sb_advertising := Some d\<rparr>"

definition advertise_service_uuid ::
  "uuid \<Rightarrow> ('t, 'w) server_builder \<Rightarrow> ('t, 'w) server_builder" where
  "advertise_service_uuid u b =
     b\<lparr>sb_advertising :=
         Some (service_uuid u (case sb_advertising b of None \<Rightarrow> advertising_new | Some d \<Rightarrow> d))\<rparr>"

definition start_server ::
  "bool \<Rightarrow> ('b, 'w) process \<Rightarrow> ('t, 'w) server_builder
     \<Rightarrow> (error + bytes) \<times> ('b, 'w) process" where
  "start_server spawned p b = launch (sb_name b) (sb_services b) (sb_advertising b) spawned p"

text \<open>\<^verbatim>\<open>GattServer\<close> holds a \<^verbatim>\<open>Runtime\<close> and forwards to it.\<close>

definition server_recv_timeout :: "runtime \<Rightarrow> server_event received \<times> runtime" where
  "server_recv_timeout srv = recv_timeout srv"

definition server_notify ::
  "caller \<Rightarrow> gatt_connection \<Rightarrow> uuid \<Rightarrow> bytes \<Rightarrow> nat \<Rightarrow> (error + unit) option \<Rightarrow> runtime
     \<Rightarrow> (error + unit) outcome \<times> runtime" where
  "server_notify k c u v i answer srv =
     (case notify k c u v i answer (commands srv) of (r, ch) \<Rightarrow> (r, srv\<lparr>commands := ch\<rparr>))"

definition server_shutdown ::
  "bool \<Rightarrow> (error + unit) outcome \<Rightarrow> runtime \<Rightarrow> ((error + unit) \<times> runtime) option" where
  "server_shutdown on_worker joined srv = runtime_shutdown on_worker joined srv"

section \<open>What a started server advertises\<close>

text \<open>The advertising data a builder stands for: its explicit data, or its name.\<close>

definition effective_advertising :: "('t, 'w) server_builder \<Rightarrow> advertising_data" where
  "effective_advertising b =
     (case sb_advertising b of None \<Rightarrow> local_name (sb_name b) advertising_new | Some d \<Rightarrow> d)"

lemma prepare_valid:
  assumes "sb_name b \<noteq> []" and "length (sb_name b) \<le> 26" and "valid_services (sb_services b)"
  shows "prepare (sb_name b) (sb_services b) (sb_advertising b) = to_bytes (effective_advertising b)"
proof -
  have "validate (sb_name b) (sb_services b) =
      Inr ([2, 1, 6, word_of_nat (length (sb_name b) + 1), 9] @ sb_name b)"
    using assms by (simp add: validate_Inr_iff)
  moreover have "to_bytes (local_name (sb_name b) advertising_new) =
      Inr ([2, 1, 6, word_of_nat (length (sb_name b) + 1), 9] @ sb_name b)"
    using assms by (simp add: to_bytes_local_name)
  ultimately show ?thesis
    by (simp add: prepare_def effective_advertising_def split: option.split)
qed

section \<open>Properties\<close>

text \<open>
  C36. Registering services and advertising are independent: with valid services and a valid name,
  a server started on a builder advertises exactly its explicit data, or flags and its name when it
  has none; asking to advertise a service UUID replaces the default name by that UUID, extends
  explicit data instead, leaves name and services alone, and is idempotent.
\<close>

theorem builder_advertises:
  assumes "sb_name b \<noteq> []" and "length (sb_name b) \<le> 26" and "valid_services (sb_services b)"
    and "\<not> ACTIVE p"
  shows "start_server True p b =
      (case to_bytes (effective_advertising b) of
         Inl e \<Rightarrow> (Inl e, p)
       | Inr payload \<Rightarrow> (Inr payload, p\<lparr>ACTIVE := True\<rparr>))
    \<and> effective_advertising (advertise_service_uuid u b) =
        service_uuid u (if sb_advertising b = None then advertising_new else effective_advertising b)
    \<and> sb_name (advertise_service_uuid u b) = sb_name b
    \<and> sb_services (advertise_service_uuid u b) = sb_services b
    \<and> advertise_service_uuid u (advertise_service_uuid u b) = advertise_service_uuid u b"
proof -
  have twice: "service_uuid u (service_uuid u d) = service_uuid u d" for d
    by (simp add: service_uuid_def)
  have "start_server True p b =
      (case to_bytes (effective_advertising b) of
         Inl e \<Rightarrow> (Inl e, p)
       | Inr payload \<Rightarrow> (Inr payload, p\<lparr>ACTIVE := True\<rparr>))"
    using assms
    by (simp add: start_server_def launch_def prepare_valid reserve_def split: sum.split)
  then show ?thesis
    by (auto simp: advertise_service_uuid_def effective_advertising_def twice split: option.split)
qed

definition example_builder :: "(unit, unit) server_builder" where
  "example_builder = with_service test_service (with_name [71, 65, 80] (builder ()))"

theorem builder_advertises_witness:
  "fst (start_server True idle_process example_builder) = Inr [2, 1, 6, 4, 9, 71, 65, 80]"
proof -
  have "to_bytes (effective_advertising example_builder) = Inr [2, 1, 6, 4, 9, 71, 65, 80]"
    by (simp add: effective_advertising_def example_builder_def with_service_def with_name_def
        builder_def to_bytes_local_name)
  moreover have "valid_services (sb_services example_builder)"
    by (simp add: example_builder_def with_service_def with_name_def builder_def valid_services_def
        all_characteristics_def handlers_missing_def)
  ultimately show ?thesis
    using builder_advertises [of example_builder idle_process]
    by (simp add: example_builder_def with_service_def with_name_def builder_def idle_process_def)
qed

text \<open>
  The life of a server ends once. A shutdown from another thread queues Stop behind the commands
  already sent, returns what the stack thread returned (or that it panicked), and leaves the events it
  reported to be received. After it, with the thread's receiver gone, every notify is refused without a
  command being queued, and a further shutdown or drop changes nothing.
\<close>

theorem server_ends_once:
  assumes "worker_handle srv" and "server_shutdown False joined srv = Some (r, srv1)"
    and "srv2 = srv1\<lparr>commands := drop_receiver (commands srv1)\<rparr>"
  shows "r = (case joined of Returned x \<Rightarrow> x | Panicked \<Rightarrow> Inl Thread_Panicked)
    \<and> queued (commands srv1) = queued (commands srv) @ (if receiver_alive (commands srv) then [Stop] else [])
    \<and> server_notify Other_Thread c u v i answer srv2 =
        (Returned (Inl (if 512 < length v then Value_Exceeds_512 else Queue_Full_Or_Stopped)), srv2)
    \<and> server_shutdown False joined' srv2 = Some (Inr (), srv2) \<and> drop_runtime False joined' srv2 = Some srv2
    \<and> event_receiver srv2 = event_receiver srv"
proof -
  from assms(2,1) obtain ch where ch: "send_blocking Stop (commands srv) = Some ch"
    and r: "r = catch_unwind (Inl Thread_Panicked) joined"
    and srv1: "srv1 = srv\<lparr>commands := ch, worker_handle := False\<rparr>"
    by (auto simp: server_shutdown_def runtime_shutdown_def shutdown_def)
  from ch have "queued ch = queued (commands srv) @ (if receiver_alive (commands srv) then [Stop] else [])"
    by (auto simp: send_blocking_def send_ignored_def try_send_def split: if_splits)
  with r show ?thesis
    by (auto simp: assms(3) srv1 catch_unwind_def server_notify_def notify_def state_is_some_def try_send_def
        drop_receiver_def server_shutdown_def runtime_shutdown_def shutdown_def drop_runtime_def
        split: outcome.split)
qed

definition running_server :: runtime where
  "running_server = \<lparr>commands = sync_channel 128, event_receiver = unbounded, worker_handle = True\<rparr>"

theorem server_ends_once_witness:
  "\<exists>srv1. server_shutdown False (Returned (Inr ())) running_server = Some (Inr (), srv1)
     \<and> queued (commands srv1) = [Stop]"
proof -
  obtain r srv1 where s: "server_shutdown False (Returned (Inr ())) running_server = Some (r, srv1)"
    by (simp add: running_server_def server_shutdown_def runtime_shutdown_def shutdown_def send_blocking_def
        sync_channel_def has_room_def)
  from server_ends_once [OF _ s refl] show ?thesis
    using s by (simp add: running_server_def sync_channel_def)
qed

end
