(* ===== verification/Example_App.thy ===== *)
theory Example_App
  imports Args Server_Builder
begin

text \<open>
  examples/gatt-peripheral/src/main.rs and the loop of the Android example
  (examples/gatt-peripheral-android/native/src/android.rs, \<^verbatim>\<open>serve\<close>), which is the same without a
  time limit: the example's GATT table, the set-up of \<^verbatim>\<open>main\<close> from the arguments to the running
  server, and the loop that follows the server's events and notifies the subscribers once a second.
  What the loop reads of its surroundings is its input: the stop flag, the clock (in nanoseconds since
  \<^verbatim>\<open>start\<close>), the results of \<^verbatim>\<open>recv_timeout\<close> and the iteration order of the hash map.
\<close>

section \<open>The GATT table of the examples\<close>

definition SERVICE :: uuid where
  "SERVICE = Uuid 0x6e 0x40 0 1 0xb5 0xa3 0xf3 0x93 0xe0 0xa9 0xe5 0x0e 0x24 0xdc 0xca 0x9e"

definition RX :: uuid where
  "RX = Uuid 0x6e 0x40 0 2 0xb5 0xa3 0xf3 0x93 0xe0 0xa9 0xe5 0x0e 0x24 0xdc 0xca 0x9e"

definition TX :: uuid where
  "TX = Uuid 0x6e 0x40 0 3 0xb5 0xa3 0xf3 0x93 0xe0 0xa9 0xe5 0x0e 0x24 0xdc 0xca 0x9e"

text \<open>\<^verbatim>\<open>b"hello from Rust"\<close> and \<^verbatim>\<open>"Rust GATT"\<close>.\<close>

definition ascii :: "string \<Rightarrow> bytes" where
  "ascii s = map of_char s"

definition on_write_rx :: "'w write_handler" where
  "on_write_rx w req = (w, Returned (Inr ()))"

definition on_read_tx :: "'w read_handler" where
  "on_read_tx w req = (w, Returned (Inr (ascii ''hello from Rust'')))"

definition uart_service :: "'w gatt_service" where
  "uart_service =
     add_characteristic (on_read on_read_tx (with_notify (with_read (characteristic_new TX))))
       (add_characteristic
          (on_write on_write_rx (with_write_without_response (with_write (characteristic_new RX))))
          (service_new SERVICE))"

definition example_server :: "'t \<Rightarrow> ('t, 'w) server_builder" where
  "example_server t = with_service uart_service (with_name (ascii ''Rust GATT'') (builder t))"

section \<open>From the arguments to the running server\<close>

datatype main_stage =
    Bad_Arguments args_error
  | Help_Shown
  | No_Signal_Handler
  | Usb_Failed usb_error
  | Probed
  | Start_Failed error
  | Started bytes

text \<open>
  \<^verbatim>\<open>main\<close> up to its loop. \<open>handler\<close> is whether the signal handler could be set; \<open>spawned\<close>,
  \<open>signals\<close> and \<open>joined\<close> are the outcomes of the start of the stack thread.
\<close>

definition main_setup ::
  "string list \<Rightarrow> bool \<Rightarrow> ('i, 'd) usb_os \<Rightarrow> bool \<Rightarrow> nat \<Rightarrow> (error + unit) outcome
     \<Rightarrow> ('b, 'w) process \<Rightarrow> main_stage \<times> ('b, 'w) process" where
  "main_setup args handler os spawned signals joined p =
     (case parse args of
        Inl e \<Rightarrow> (Bad_Arguments e, p)
      | Inr a \<Rightarrow>
          if show_help a then (Help_Shown, p)
          else if \<not> handler then (No_Signal_Handler, p)
          else case open_device os (selector a) of
                 Inl e \<Rightarrow> (Usb_Failed e, p)
               | Inr t \<Rightarrow>
                   if probe a then (Probed, p)
                   else case start_server spawned p (example_server t) of
                          (Inl e, p') \<Rightarrow> (Start_Failed e, p')
                        | (Inr payload, p') \<Rightarrow>
                            (case await_ready signals joined of
                               Inl e \<Rightarrow> (Start_Failed e, p')
                             | Inr _ \<Rightarrow> (Started payload, p')))"

section \<open>The loop over the server's events\<close>

type_synonym subscribers = "u64 \<rightharpoonup> gatt_connection"

datatype serve_error = Reported error | Runtime_Stopped | Shutdown_Error error

definition handle_server_event ::
  "server_event received \<Rightarrow> subscribers \<Rightarrow> serve_error + subscribers" where
  "handle_server_event r m =
     (case r of
        Received (SubscriptionChanged c _ sub) \<Rightarrow>
          Inr (if sub = Subscription_Notify then m(connection_id c \<mapsto> c) else m(connection_id c := None))
      | Received (Disconnected c) \<Rightarrow> Inr (m(connection_id c := None))
      | Received (Server_Error e) \<Rightarrow> Inl (Reported e)
      | Received _ \<Rightarrow> Inr m
      | Nothing_Yet \<Rightarrow> Inr m
      | Senders_Gone \<Rightarrow> Inl Runtime_Stopped)"

record serve_input =
  stop_requested :: bool
  checked_at :: nat
  received_event :: "server_event received"
  ticked_at :: nat
  value_at :: nat
  value_order :: "u64 list"
  reset_at :: nat

text \<open>The notify calls of one tick are one element of \<open>notified\<close>.\<close>

record serve_state =
  subscribed :: subscribers
  tick :: nat
  notified :: "(gatt_connection \<times> bytes) list list"

definition serve_start :: "nat \<Rightarrow> serve_state" where
  "serve_start t0 = \<lparr>subscribed = Map.empty, tick = t0, notified = []\<rparr>"

definition subscriber_values :: "u64 list \<Rightarrow> subscribers \<Rightarrow> gatt_connection list" where
  "subscriber_values order m = concat (map (\<lambda>k. case m k of None \<Rightarrow> [] | Some c \<Rightarrow> [c]) order)"

text \<open>\<^verbatim>\<open>format!("tick {}", start.elapsed().as_secs())\<close>.\<close>

definition tick_value :: "nat \<Rightarrow> bytes" where
  "tick_value t = ascii (''tick '' @ decimal (t div 10 ^ 9))"

definition tick_step :: "serve_input \<Rightarrow> serve_state \<Rightarrow> serve_state" where
  "tick_step i s =
     (if 10 ^ 9 \<le> ticked_at i - tick s
      then s\<lparr>notified := notified s @
               [map (\<lambda>c. (c, tick_value (value_at i))) (subscriber_values (value_order i) (subscribed s))],
             tick := reset_at i\<rparr>
      else s)"

text \<open>
  \<^verbatim>\<open>args.seconds.is_none_or(..)\<close>. The loop ends in \<open>None\<close> when the inputs are used up with
  the loop still running; \<open>down\<close> is what \<^verbatim>\<open>server.shutdown()\<close> returns.
\<close>

definition within :: "u64 option \<Rightarrow> nat \<Rightarrow> bool" where
  "within limit t = (case limit of None \<Rightarrow> True | Some n \<Rightarrow> t < unat n * 10 ^ 9)"

fun serve ::
  "u64 option \<Rightarrow> error + unit \<Rightarrow> serve_input list \<Rightarrow> serve_state
     \<Rightarrow> serve_state \<times> (serve_error + unit) option" where
  "serve limit down [] s = (s, None)"
| "serve limit down (i # is) s =
     (if stop_requested i \<or> \<not> within limit (checked_at i)
      then (s, Some (map_sum Shutdown_Error id down))
      else case handle_server_event (received_event i) (subscribed s) of
             Inl e \<Rightarrow> (s, Some (Inl e))
           | Inr m \<Rightarrow> serve limit down is (tick_step i (s\<lparr>subscribed := m\<rparr>)))"

text \<open>
  \<^verbatim>\<open>serve\<close> of the Android example: it looks at its flag first, opens the transport over the
  descriptor, starts the same server and runs the same loop without a limit.
\<close>

datatype android_end =
    Not_Started
  | Android_Usb usb_error
  | Android_Start error
  | Android_Served serve_state "(serve_error + unit) option"

definition serve_android ::
  "bool \<Rightarrow> ('i, 'd) usb_os \<Rightarrow> ('f \<Rightarrow> string + 'd) \<Rightarrow> 'f \<Rightarrow> bool \<Rightarrow> nat \<Rightarrow> (error + unit) outcome
     \<Rightarrow> error + unit \<Rightarrow> serve_input list \<Rightarrow> nat \<Rightarrow> ('b, 'w) process \<Rightarrow> android_end \<times> ('b, 'w) process" where
  "serve_android stopped os open_fd fd spawned signals joined down is t0 p =
     (if stopped then (Not_Started, p)
      else case from_fd os open_fd fd of
             Inl e \<Rightarrow> (Android_Usb e, p)
           | Inr t \<Rightarrow>
               (case start_server spawned p (example_server t) of
                  (Inl e, p') \<Rightarrow> (Android_Start e, p')
                | (Inr _, p') \<Rightarrow>
                    (case await_ready signals joined of
                       Inl e \<Rightarrow> (Android_Start e, p')
                     | Inr _ \<Rightarrow>
                         (case serve None down is (serve_start t0) of
                            (s, r) \<Rightarrow> (Android_Served s r, p')))))"

section \<open>The subscribers against the event history\<close>

text \<open>The reference: the last word of the events on a connection.\<close>

definition about_connection :: "u64 \<Rightarrow> server_event \<Rightarrow> bool" where
  "about_connection k e =
     (case e of SubscriptionChanged c _ _ \<Rightarrow> connection_id c = k
      | Disconnected c \<Rightarrow> connection_id c = k | _ \<Rightarrow> False)"

definition last_subscription :: "u64 \<Rightarrow> server_event list \<Rightarrow> gatt_connection option" where
  "last_subscription k es =
     (case find (about_connection k) (rev es) of
        Some (SubscriptionChanged c _ Subscription_Notify) \<Rightarrow> Some c
      | _ \<Rightarrow> None)"

definition events_of :: "serve_input list \<Rightarrow> server_event list" where
  "events_of is = concat (map (\<lambda>i. case received_event i of Received e \<Rightarrow> [e] | _ \<Rightarrow> []) is)"

lemma last_subscription_Nil [simp]: "last_subscription k [] = None"
  by (simp add: last_subscription_def)

lemma last_subscription_snoc:
  "last_subscription k (es @ [e]) =
     (if about_connection k e
      then (case e of SubscriptionChanged c _ Subscription_Notify \<Rightarrow> Some c | _ \<Rightarrow> None)
      else last_subscription k es)"
  by (simp add: last_subscription_def)

lemma handle_server_event_last:
  assumes "handle_server_event r (\<lambda>k. last_subscription k es) = Inr m"
  shows "m = (\<lambda>k. last_subscription k (es @ (case r of Received e \<Rightarrow> [e] | _ \<Rightarrow> [])))"
  using assms
  by (intro ext) (auto simp: handle_server_event_def last_subscription_snoc about_connection_def
      split: received.splits server_event.splits subscription_type.splits if_splits)

lemma last_subscription_id: "last_subscription k es = Some c \<Longrightarrow> connection_id c = k"
proof -
  assume l: "last_subscription k es = Some c"
  then obtain u where "find (about_connection k) (rev es) = Some (SubscriptionChanged c u Subscription_Notify)"
    by (auto simp: last_subscription_def split: option.splits server_event.splits subscription_type.splits)
  then have "about_connection k (SubscriptionChanged c u Subscription_Notify)"
    by (auto simp: find_Some_iff)
  then show ?thesis by (simp add: about_connection_def)
qed

lemma subscriber_values_mem: "c \<in> set (subscriber_values order m) \<Longrightarrow> \<exists>k. m k = Some c"
  by (auto simp: subscriber_values_def split: option.splits)

lemma tick_step_subscribed [simp]: "subscribed (tick_step i s) = subscribed s"
  by (simp add: tick_step_def)

text \<open>A batch notifies connections that are subscribed by the history, with one value.\<close>

definition batch_ok :: "server_event list \<Rightarrow> (gatt_connection \<times> bytes) list \<Rightarrow> bool" where
  "batch_ok es b \<longleftrightarrow>
     (\<forall>(c, v) \<in> set b. last_subscription (connection_id c) es = Some c \<and> (\<exists>t. v = tick_value t))"

lemma tick_step_notified:
  assumes "subscribed s = (\<lambda>k. last_subscription k es)"
  shows "notified (tick_step i s) = notified s
    \<or> (\<exists>b. notified (tick_step i s) = notified s @ [b] \<and> batch_ok es b)"
proof -
  have "batch_ok es (map (\<lambda>c. (c, tick_value (value_at i))) (subscriber_values (value_order i) (subscribed s)))"
    using assms
    by (auto simp: batch_ok_def dest!: subscriber_values_mem) (frule last_subscription_id, simp)
  then show ?thesis by (simp add: tick_step_def)
qed

lemma events_of_Cons:
  "events_of (i # is) = (case received_event i of Received e \<Rightarrow> [e] | _ \<Rightarrow> []) @ events_of is"
  by (simp add: events_of_def)

lemma serve_history:
  "\<lbrakk> serve limit down is s = (s', r); subscribed s = (\<lambda>k. last_subscription k es);
     \<forall>b \<in> set (notified s). \<exists>m \<le> length es. batch_ok (take m es) b \<rbrakk> \<Longrightarrow>
     \<exists>n \<le> length is. (r = None \<longrightarrow> n = length is)
       \<and> subscribed s' = (\<lambda>k. last_subscription k (es @ events_of (take n is)))
       \<and> (\<forall>b \<in> set (notified s'). \<exists>m \<le> length (es @ events_of (take n is)).
            batch_ok (take m (es @ events_of (take n is))) b)"
proof (induction limit down "is" s arbitrary: es rule: serve.induct)
  case (1 limit down s)
  then show ?case by (auto simp: events_of_def)
next
  case (2 limit down i "is" s)
  show ?case
  proof (cases "(stop_requested i \<or> \<not> within limit (checked_at i))
      \<or> (\<exists>e. handle_server_event (received_event i) (subscribed s) = Inl e)")
    case True
    then have "s' = s \<and> r \<noteq> None" using "2.prems"(1) by (auto split: if_splits)
    with "2.prems"(2,3) show ?thesis by (intro exI [of _ 0]) (auto simp: events_of_def)
  next
    case False
    then obtain m where go: "\<not> (stop_requested i \<or> \<not> within limit (checked_at i))"
      and m: "handle_server_event (received_event i) (subscribed s) = Inr m"
      by (cases "handle_server_event (received_event i) (subscribed s)") auto
    define es1 where "es1 = es @ (case received_event i of Received e \<Rightarrow> [e] | _ \<Rightarrow> [])"
    let ?s1 = "tick_step i (s\<lparr>subscribed := m\<rparr>)"
    have sub: "m = (\<lambda>k. last_subscription k es1)"
      using m "2.prems"(2) by (simp add: es1_def handle_server_event_last)
    have old: "\<exists>l \<le> length es1. batch_ok (take l es1) b" if "b \<in> set (notified s)" for b
    proof -
      from "2.prems"(3) that obtain l where "l \<le> length es" "batch_ok (take l es) b" by blast
      then show ?thesis by (intro exI [of _ l]) (simp add: es1_def)
    qed
    have "\<exists>l \<le> length es1. batch_ok (take l es1) b" if "batch_ok es1 b" for b
      using that by (intro exI [of _ "length es1"]) simp
    moreover have "b \<in> set (notified s) \<or> batch_ok es1 b" if "b \<in> set (notified ?s1)" for b
      using tick_step_notified [of "s\<lparr>subscribed := m\<rparr>" es1 i] sub that by auto
    ultimately have "\<forall>b \<in> set (notified ?s1). \<exists>l \<le> length es1. batch_ok (take l es1) b"
      using old by blast
    from "2.IH" [OF go m _ _ this] "2.prems"(1) go m sub obtain n where n: "n \<le> length is"
      "r = None \<longrightarrow> n = length is" "subscribed s' = (\<lambda>k. last_subscription k (es1 @ events_of (take n is)))"
      "\<forall>b \<in> set (notified s'). \<exists>l \<le> length (es1 @ events_of (take n is)).
            batch_ok (take l (es1 @ events_of (take n is))) b"
      by auto
    have "es1 @ events_of (take n is) = es @ events_of (take (Suc n) (i # is))"
      by (simp add: es1_def events_of_Cons)
    with n show ?thesis by (intro exI [of _ "Suc n"]) simp
  qed
qed

section \<open>The clock\<close>

definition instants :: "serve_input \<Rightarrow> nat list" where
  "instants i = [checked_at i, ticked_at i, value_at i, reset_at i]"

lemma tick_step_clock:
  assumes "ticked_at i \<le> reset_at i"
  shows "length (notified s) * 10 ^ 9 + t0 \<le> tick s \<Longrightarrow>
    length (notified (tick_step i s)) * 10 ^ 9 + t0 \<le> tick (tick_step i s)"
  using assms by (auto simp: tick_step_def)

lemma serve_clock:
  "\<lbrakk> serve limit down is s = (s', r); \<forall>i \<in> set is. ticked_at i \<le> reset_at i;
     length (notified s) * 10 ^ 9 + t0 \<le> tick s \<rbrakk> \<Longrightarrow> length (notified s') * 10 ^ 9 + t0 \<le> tick s'"
proof (induction limit down "is" s rule: serve.induct)
  case (2 limit down i "is" s)
  show ?case
  proof (cases "s' = s")
    case False
    with "2.prems"(1) obtain m where go: "\<not> (stop_requested i \<or> \<not> within limit (checked_at i))"
      and m: "handle_server_event (received_event i) (subscribed s) = Inr m"
      by (cases "handle_server_event (received_event i) (subscribed s)") (auto split: if_splits)
    have "length (notified (tick_step i (s\<lparr>subscribed := m\<rparr>))) * 10 ^ 9 + t0
        \<le> tick (tick_step i (s\<lparr>subscribed := m\<rparr>))"
      using "2.prems"(2,3) by (intro tick_step_clock) simp_all
    from "2.IH" [OF go m _ _ this] "2.prems"(1,2) go m show ?thesis by simp
  qed (use "2.prems" in simp)
qed simp

lemma serve_tick_le:
  "\<lbrakk> serve limit down is s = (s', r); \<forall>i \<in> set is. reset_at i \<le> t; tick s \<le> t \<rbrakk> \<Longrightarrow> tick s' \<le> t"
proof (induction limit down "is" s rule: serve.induct)
  case (2 limit down i "is" s)
  show ?case
  proof (cases "s' = s")
    case False
    with "2.prems"(1) obtain m where go: "\<not> (stop_requested i \<or> \<not> within limit (checked_at i))"
      and m: "handle_server_event (received_event i) (subscribed s) = Inr m"
      by (cases "handle_server_event (received_event i) (subscribed s)") (auto split: if_splits)
    have "tick (tick_step i (s\<lparr>subscribed := m\<rparr>)) \<le> t"
      using "2.prems"(2,3) by (simp add: tick_step_def)
    from "2.IH" [OF go m _ _ this] "2.prems"(1,2) go m show ?thesis by simp
  qed (use "2.prems" in simp)
qed simp

lemma serve_ends:
  "i \<in> set is \<Longrightarrow> stop_requested i \<or> \<not> within limit (checked_at i)
     \<Longrightarrow> snd (serve limit down is s) \<noteq> None"
proof (induction limit down "is" s rule: serve.induct)
  case (2 limit down j "is" s)
  show ?case
  proof (cases "stop_requested j \<or> \<not> within limit (checked_at j)")
    case False
    with 2 show ?thesis by (auto split: sum.split)
  qed simp
qed simp

lemma serve_result:
  "serve limit down is s = (s', Some (Inr ())) \<Longrightarrow>
     down = Inr () \<and> (\<exists>i \<in> set is. stop_requested i \<or> \<not> within limit (checked_at i))"
proof (induction limit down "is" s rule: serve.induct)
  case (2 limit down j "is" s)
  then show ?case
    by (cases down) (auto split: if_splits sum.splits)
qed simp

text \<open>The printed value of a tick is short: the 20 bytes of the default MTU last for 31 million years.\<close>

lemma decimal_length: "n < 10 ^ Suc k \<Longrightarrow> length (decimal n) \<le> Suc k"
proof (induction k arbitrary: n)
  case 0
  then show ?case by (simp add: decimal.simps [of n])
next
  case (Suc k)
  show ?case
  proof (cases "n < 10")
    case False
    have "n div 10 < 10 ^ Suc k" using Suc.prems by (simp add: less_mult_imp_div_less)
    from Suc.IH [OF this] False show ?thesis by (simp add: decimal.simps [of n])
  qed (simp add: decimal.simps [of n])
qed

lemma tick_value_length: "t < 10 ^ 24 \<Longrightarrow> length (tick_value t) \<le> 20"
  using decimal_length [of "t div 10 ^ 9" 14]
  by (simp add: tick_value_def ascii_def less_mult_imp_div_less)

section \<open>Properties\<close>

text \<open>
  C28. The map of subscribers the loop keeps is, at every point, what the event history says: an ID maps
  to the connection of the last event about it if that event was a subscription, and is absent if
  that was the end of a subscription or a disconnection. Every notify call of a tick goes to a connection
  subscribed by a prefix of the history, under its own ID.
\<close>

theorem subscribers_follow_events:
  assumes "serve limit down is (serve_start t0) = (s, r)"
  shows "\<exists>n \<le> length is. (r = None \<longrightarrow> n = length is)
    \<and> subscribed s = (\<lambda>k. last_subscription k (events_of (take n is)))
    \<and> (\<forall>b \<in> set (notified s). \<exists>m. batch_ok (take m (events_of (take n is))) b)"
  using serve_history [OF assms, of "[]"] by (simp add: serve_start_def, blast)

text \<open>A peer subscribes, is notified, and disconnects.\<close>

definition tick_input :: "server_event received \<Rightarrow> nat \<Rightarrow> serve_input" where
  "tick_input r t =
     \<lparr>stop_requested = False, checked_at = t, received_event = r, ticked_at = t, value_at = t,
      value_order = [7], reset_at = t\<rparr>"

definition example_inputs :: "serve_input list" where
  "example_inputs =
     [tick_input (Received (SubscriptionChanged peer_64 TX Subscription_Notify)) (10 ^ 9),
      tick_input Nothing_Yet (3 * 10 ^ 9),
      tick_input (Received (Disconnected peer_64)) (5 * 10 ^ 9)]"

lemmas example_serve = example_inputs_def tick_input_def serve_start_def within_def
  handle_server_event_def tick_step_def subscriber_values_def connection_id_def peer_64_def

theorem subscribers_follow_events_witness:
  "notified (fst (serve None (Inr ()) example_inputs (serve_start 0))) =
      [[(peer_64, tick_value (10 ^ 9))], [(peer_64, tick_value (3 * 10 ^ 9))], []]
   \<and> subscribed (fst (serve None (Inr ()) example_inputs (serve_start 0))) =
      (\<lambda>k. last_subscription k (events_of example_inputs))"
proof -
  obtain s r where run: "serve None (Inr ()) example_inputs (serve_start 0) = (s, r)"
    by (cases "serve None (Inr ()) example_inputs (serve_start 0)")
  have "r = None" "notified s =
      [[(peer_64, tick_value (10 ^ 9))], [(peer_64, tick_value (3 * 10 ^ 9))], []]"
    using run by (auto simp: example_serve)
  with subscribers_follow_events [OF run] run show ?thesis by auto
qed

text \<open>
  The loop ticks at most once a second: with a clock that never goes back, the number of batches is
  bounded by the seconds that have passed, and each value fits the smallest notification, 20 bytes.
\<close>

theorem ticks_bounded:
  assumes "serve limit down is (serve_start t0) = (s, r)"
    and "\<forall>i \<in> set is. ticked_at i \<le> reset_at i \<and> reset_at i \<le> t" and "t0 \<le> t"
  shows "length (notified s) * 10 ^ 9 \<le> t - t0 \<and> (t < 10 ^ 24 \<longrightarrow> length (tick_value t) \<le> 20)"
proof -
  have "length (notified s) * 10 ^ 9 + t0 \<le> tick s"
    using serve_clock [OF assms(1), of t0] assms(2) by (simp add: serve_start_def)
  also have "tick s \<le> t"
    using serve_tick_le [OF assms(1), of t] assms(2,3) by (simp add: serve_start_def)
  finally have "length (notified s) * 10 ^ 9 \<le> t - t0" by linarith
  then show ?thesis using tick_value_length by blast
qed

theorem ticks_bounded_witness:
  "length (notified (fst (serve None (Inr ()) example_inputs (serve_start 0)))) * 10 ^ 9
     \<le> 5 * 10 ^ 9 - 0"
proof -
  obtain s r where run: "serve None (Inr ()) example_inputs (serve_start 0) = (s, r)"
    by (cases "serve None (Inr ()) example_inputs (serve_start 0)")
  have "\<forall>i \<in> set example_inputs. ticked_at i \<le> reset_at i \<and> reset_at i \<le> 5 * 10 ^ 9"
    by (simp add: example_inputs_def tick_input_def)
  from ticks_bounded [OF run this] run show ?thesis by simp
qed

text \<open>
  C29. The loop ends in the first iteration whose check finds the stop flag set or the requested
  seconds over, at the latest; it reports success only from there, after a shutdown that succeeded.
  The Android loop, which has no limit, reports success only when it was told to stop.
\<close>

theorem serve_stops:
  "((\<exists>i \<in> set is. stop_requested i \<or> \<not> within limit (checked_at i))
      \<longrightarrow> snd (serve limit down is s) \<noteq> None)
   \<and> (serve limit down is s = (s', Some (Inr ())) \<longrightarrow>
      down = Inr () \<and> (\<exists>i \<in> set is. stop_requested i \<or> \<not> within limit (checked_at i)))
   \<and> (serve_android stopped os open_fd fd sp signals joined down is t0 p = (Android_Served s' (Some (Inr ())), p') \<longrightarrow>
      down = Inr () \<and> (\<exists>i \<in> set is. stop_requested i))"
proof -
  have "down = Inr () \<and> (\<exists>i \<in> set is. stop_requested i)"
    if "serve_android stopped os open_fd fd sp signals joined down is t0 p = (Android_Served s' (Some (Inr ())), p')"
  proof -
    from that have "serve None down is (serve_start t0) = (s', Some (Inr ()))"
      by (auto simp: serve_android_def split: if_splits sum.splits prod.splits)
    from serve_result [OF this] show ?thesis by (simp add: within_def)
  qed
  then show ?thesis using serve_ends serve_result by blast
qed

theorem serve_stops_witness:
  "snd (serve (Some 4) (Inr ()) example_inputs (serve_start 0)) \<noteq> None"
  by (rule serve_stops [THEN conjunct1, THEN mp])
    (simp add: example_inputs_def tick_input_def within_def)

section \<open>The example's server starts\<close>

lemma uart_characteristics:
  "characteristics uart_service =
     [\<lparr>ch_uuid = RX, properties = 12, read_fn = None, write_fn = Some on_write_rx\<rparr>,
      \<lparr>ch_uuid = TX, properties = 18, read_fn = Some on_read_tx, write_fn = None\<rparr>]"
  by (simp add: uart_service_def add_characteristic_def service_new_def on_write_def on_read_def
      with_write_def with_write_without_response_def with_read_def with_notify_def characteristic_new_def)

lemma uart_valid: "valid_services [uart_service]"
  by (auto simp: valid_services_def all_characteristics_def uart_characteristics handlers_missing_def
      RX_def TX_def)

definition example_payload :: bytes where
  "example_payload = [2, 1, 6, 10, 9] @ ascii ''Rust GATT''"

lemma prepare_example: "prepare (ascii ''Rust GATT'') [uart_service] None = Inr example_payload"
proof -
  have name: "ascii ''Rust GATT'' \<noteq> []" "length (ascii ''Rust GATT'') = 9" by (simp_all add: ascii_def)
  have "prepare (ascii ''Rust GATT'') [uart_service] None =
      to_bytes (local_name (ascii ''Rust GATT'') advertising_new)"
    using prepare_valid [of "example_server ()"] name uart_valid
    by (simp add: example_server_def with_service_def with_name_def builder_def effective_advertising_def)
  also have "\<dots> = Inr example_payload"
    using to_bytes_local_name [of "ascii ''Rust GATT''"] name by (simp add: example_payload_def)
  finally show ?thesis .
qed

lemma start_example_server:
  "start_server sp p (example_server t) =
     (if ACTIVE p then (Inl Already_Active, p)
      else if sp then (Inr example_payload, p\<lparr>ACTIVE := True\<rparr>)
      else (Inl Spawn_Failed, p\<lparr>ACTIVE := False\<rparr>))"
  by (simp add: start_server_def launch_def reserve_def unreserve_def example_server_def
      with_service_def with_name_def builder_def prepare_example)

text \<open>
  The desktop example gets to a running server exactly if its arguments parse and ask neither for
  help nor for a probe, the signal handler and the USB device can be opened, no other runtime is active,
  the stack thread starts and signals readiness; it then advertises flags and the name Rust GATT, and
  the process is marked active. Asking for help never touches the device.
\<close>

theorem main_started_iff:
  "(main_setup args handler os sp signals joined p = (Started payload, p') \<longleftrightarrow>
     (\<exists>a t. parse args = Inr a \<and> \<not> show_help a \<and> handler \<and> open_device os (selector a) = Inr t
        \<and> \<not> probe a \<and> \<not> ACTIVE p \<and> sp \<and> await_ready signals joined = Inr ()
        \<and> payload = example_payload \<and> p' = p\<lparr>ACTIVE := True\<rparr>))
   \<and> (fst (main_setup args handler os sp signals joined p) = Help_Shown \<longleftrightarrow>
        (\<exists>a. parse args = Inr a \<and> show_help a))"
  by (auto simp: main_setup_def start_example_server split: sum.splits if_splits)

end
