(* ===== verification/Subscriber_Tracking.thy ===== *)
theory Subscriber_Tracking
  imports Example_App Peer_Properties
begin

text \<open>
  The example's loop over the server's events composed with the stack thread that reports them: a
  connection in the loop's map of subscribers that is still the server's is subscribed there. The
  invariant \<open>tracks\<close> relates the server's CCCD flags to the whole history of reported events and is
  carried through the run loop, and every callback BTstack makes, by the locale \<open>loop_invariant\<close>.
\<close>

section \<open>The invariant\<close>














section \<open>One event more\<close>











section \<open>The steps of the stack thread\<close>













section \<open>Properties\<close>


text \<open>A stack whose every poll writes 1 to the CCCD behind TX for the peer on handle 64.\<close>

definition subscribing_stack :: "unit btstack" where
  "subscribing_stack = quiet_stack\<lparr>bt_call := \<lambda>call b.
     (if call = Run_Loop_Execute_Once then C_Att_Write 64 4 0 0 [1, 0] 2 (\<lambda>r. C_Return b 0)
      else C_Return b 0)\<rparr>"

definition subscribing_env :: "(unit, unit) env" where
  "subscribing_env = quiet_env\<lparr>env_btstack := subscribing_stack\<rparr>"





lemma subscribing_fields [simp]:
  "env_transport subscribing_env = quiet_transport" "overflow_checks subscribing_env = True"
  "bt_call (env_btstack subscribing_env) Run_Loop_Execute_Once b =
     C_Att_Write 64 4 0 0 [1, 0] 2 (\<lambda>r. C_Return b 0)"
  by (simp_all add: subscribing_env_def subscribing_stack_def quiet_env_def)







end
