(* ===== verification/Att_Properties.thy ===== *)
theory Att_Properties
  imports Att_Callbacks
begin

text \<open>
  What the ATT callbacks promise to a peer and to the application, stated over \<open>att_read\<close> and
  \<open>att_write\<close> for every handler, every table and every buffer. The witnesses run on the state of
  the repository's unit tests: one characteristic at handle 10 and two connected peers.
\<close>

section \<open>The unit tests' state\<close>

definition test_connection :: "u16 \<Rightarrow> gatt_connection" where
  "test_connection h = \<lparr>conn_handle = h, generation = ucast h, mtu = 23\<rparr>"

definition test_state :: "'w gatt_characteristic \<Rightarrow> 'w state" where
  "test_state ch =
     \<lparr>attributes = [\<lparr>attr_handle = 10, attr_char = ch\<rparr>],
      connections = [1 \<mapsto> test_connection 1, 2 \<mapsto> test_connection 2],
      subscriptions = Map.empty, reads = Map.empty, pending = [], events = unbounded\<rparr>"

lemma test_state_fields [simp]:
  "attributes (test_state ch) = [\<lparr>attr_handle = 10, attr_char = ch\<rparr>]"
  "connections (test_state ch) = [1 \<mapsto> test_connection 1, 2 \<mapsto> test_connection 2]"
  "subscriptions (test_state ch) = Map.empty"
  "reads (test_state ch) = Map.empty"
  "pending (test_state ch) = []"
  "events (test_state ch) = unbounded"
  by (simp_all add: test_state_def)

lemma test_state_ok: "state_ok (test_state ch)"
  by (simp add: state_ok_parts test_connection_def)

text \<open>A counting application: reads return six bytes and are counted, and so are writes.\<close>

definition counting_read :: "nat read_handler" where
  "counting_read n _ = (Suc n, Returned (Inr [97, 98, 99, 100, 101, 102]))"

definition counting_write :: "nat write_handler" where
  "counting_write n _ = (Suc n, Returned (Inr ()))"

definition readable :: "nat gatt_characteristic" where
  "readable = on_read counting_read (with_read (characteristic_new (uuid_repeat 1)))"

definition writable :: "nat gatt_characteristic" where
  "writable = on_write counting_write (with_write (characteristic_new (uuid_repeat 1)))"

definition notifiable :: "nat gatt_characteristic" where
  "notifiable = with_notify (characteristic_new (uuid_repeat 1))"

lemmas test_chars = readable_def writable_def notifiable_def on_read_def on_write_def
  with_read_def with_write_def with_notify_def characteristic_new_def notifies_def

lemmas att_defs = att_read_def read_body_def refresh_snapshot_def read_value_def copy_value_def
  att_write_def write_body_def write_value_def write_cccd_def set_subscription_def catch_unwind_def

lemma probe_readable:
  "att_read True 0 (Some (test_state readable)) 1 10 0 True 0 =
     (1, Some ((test_state readable)\<lparr>reads := [(1, 10) \<mapsto> [97, 98, 99, 100, 101, 102]]\<rparr>), 6, [])"
  by (simp add: att_defs test_chars counting_read_def)

section \<open>Reads\<close>

text \<open>
  C15. A read either fails with an error code of the range 0xfe00 and copies nothing, or answers from
  the snapshot of the attribute, which is at most 512 bytes: a probe returns its length, a copy at an
  offset within it returns as many of its bytes from there as fit the buffer, and their number.
\<close>

theorem read_result:
  assumes "state_ok s"
    and "att_read oc app (Some s) connection attribute offset null buf_size = (app', Some s', code, bs)"
  shows "(0xfe00 \<le> code \<and> bs = [])
    \<or> (\<exists>v. reads s' (connection, attribute) = Some v \<and> length v \<le> 512
        \<and> unat offset \<le> length v \<and> unat code \<le> 512
        \<and> (if null then unat code = length v \<and> bs = []
           else bs = take (unat buf_size) (drop (unat offset) v) \<and> unat code = length bs))"
proof -
  obtain r where body: "read_body oc app s connection attribute offset null buf_size = (app', s', r)"
    and ret: "catch_unwind (0xfe0e, []) r = (code, bs)"
    using assms(2) by (auto simp: att_read_def split: prod.splits)
  have "reads_ok s" using assms(1) by (simp add: state_ok_def)
  from read_body_cases [OF body this ret] show ?thesis
  proof (elim disjE exE conjE)
    fix v
    assume snap: "snapshot oc connection attribute s' v"
      and copy: "(code, bs) = copy_value v offset null buf_size"
    from snap have "length v \<le> 512" by (simp add: snapshot_def)
    from copy_value_cases [OF copy [symmetric] this] snap show ?thesis
      by (auto simp: snapshot_def)
  qed simp
qed

theorem read_result_witness:
  "(0xfe00 \<le> (6 :: u16) \<and> ([] :: bytes) = [])
    \<or> (\<exists>v. reads ((test_state readable)\<lparr>reads := [(1, 10) \<mapsto> [97, 98, 99, 100, 101, 102]]\<rparr>) (1, 10) = Some v
        \<and> length v \<le> 512 \<and> unat (0 :: u16) \<le> length v \<and> unat (6 :: u16) \<le> 512
        \<and> (if True then unat (6 :: u16) = length v \<and> ([] :: bytes) = []
           else ([] :: bytes) = take (unat (0 :: u16)) (drop (unat (0 :: u16)) v)
             \<and> unat (6 :: u16) = length ([] :: bytes)))"
  by (rule read_result [OF test_state_ok probe_readable])



text \<open>
  The application's read handler runs at most once per probe: a copy from a snapshot, and every
  read of a CCCD, leaves the application alone; whenever the application's state changed, the
  request was a probe or found no snapshot, and the change is one call of the attribute's handler
  with the live connection.
\<close>

theorem read_calls_handler_once:
  assumes "att_read oc app (Some s) connection attribute offset null buf_size = (app', st', code, bs)"
    and "app' \<noteq> app"
  shows "(null \<or> reads s (connection, attribute) = None)
    \<and> (\<exists>c a f. connections s connection = Some c
        \<and> find_attribute oc attribute (attributes s) = Returned (Some a)
        \<and> attr_handle a = attribute \<and> read_fn (attr_char a) = Some f
        \<and> app' = fst (f app \<lparr>rd_connection = c\<rparr>))"
proof -
  obtain s' r where body: "read_body oc app s connection attribute offset null buf_size = (app', s', r)"
    using assms(1) by (auto simp: att_read_def split: prod.splits)
  then obtain c a s1 r1 where c: "connections s connection = Some c"
    and a: "find_attribute oc attribute (attributes s) = Returned (Some a)"
    and ref: "refresh_snapshot app s c a connection attribute null = (app', s1, r1)"
    using assms(2)
    by (auto simp: read_body_def split: option.splits outcome.splits prod.splits sum.splits)
  then obtain r2 where stale: "null \<or> reads s (connection, attribute) = None"
    and val: "read_value app s c a connection attribute = (app', r2)"
    using assms(2)
    by (auto simp: refresh_snapshot_def split: if_splits prod.splits outcome.splits sum.splits)
  have "attr_handle a = attribute \<and>
      (\<exists>f. read_fn (attr_char a) = Some f \<and> app' = fst (f app \<lparr>rd_connection = c\<rparr>))"
    using val assms(2)
    by (auto simp: read_value_def split: if_splits option.splits prod.splits outcome.splits sum.splits)
  with c a stale show ?thesis by auto
qed

theorem read_calls_handler_once_witness:
  "(True \<or> reads (test_state readable) (1, 10) = None)
    \<and> (\<exists>c a f. connections (test_state readable) 1 = Some c
        \<and> find_attribute True 10 (attributes (test_state readable)) = Returned (Some a)
        \<and> attr_handle a = 10 \<and> read_fn (attr_char a) = Some f
        \<and> 1 = fst (f 0 \<lparr>rd_connection = c\<rparr>))"
  by (rule read_calls_handler_once [OF probe_readable]) simp

section \<open>Writes\<close>

definition written :: "bytes \<Rightarrow> u16 \<Rightarrow> bytes" where
  "written bs buf_size = (if buf_size = 0 then [] else take (unat buf_size) bs)"

lemma att_write_eq:
  "att_write oc app (Some s) connection attribute mode offset bs buf_size =
     (if mode \<noteq> 0 then (app, Some s, status_i32 RequestNotSupported)
      else if offset \<noteq> 0 then (app, Some s, status_i32 InvalidOffset)
      else case write_body oc app s connection attribute (written bs buf_size) of
             (app', s', r) \<Rightarrow> (app', Some s', catch_unwind (status_i32 UnlikelyError) r))"
  by (simp add: att_write_def written_def)

lemma write_writable:
  "att_write True 0 (Some (test_state writable)) 1 10 0 0 [7] 1 =
     (1, Some ((test_state writable)\<lparr>reads := (Map.empty)((1, 10) := None)\<rparr>), 0)"
  by (simp add: att_write_eq written_def att_defs test_chars counting_write_def)

text \<open>
  Prepared writes and writes at an offset never reach the application: its state changes only by
  one call of the attribute's handler, with the live connection and exactly the bytes written, for an
  ordinary write at offset zero of at most 512 bytes to a value that has a handler.
\<close>

theorem write_calls_handler:
  assumes "att_write oc app st connection attribute mode offset bs buf_size = (app', st', code)"
    and "app' \<noteq> app"
  shows "mode = 0 \<and> offset = 0 \<and> length (written bs buf_size) \<le> 512
    \<and> (\<exists>s c a f. st = Some s \<and> connections s connection = Some c
        \<and> find_attribute oc attribute (attributes s) = Returned (Some a)
        \<and> attr_handle a = attribute \<and> write_fn (attr_char a) = Some f
        \<and> app' = fst (f app \<lparr>wr_connection = c, wr_value = written bs buf_size\<rparr>))"
proof -
  have mode: "mode = 0 \<and> offset = 0"
    using assms by (auto simp: att_write_def split: if_splits)
  then obtain s where s: "st = Some s"
    using assms by (auto simp: att_write_def split: option.splits)
  then obtain s' r where "write_body oc app s connection attribute (written bs buf_size) = (app', s', r)"
    using assms(1) mode by (auto simp: att_write_eq split: prod.splits)
  then obtain c a where c: "connections s connection = Some c"
    and a: "find_attribute oc attribute (attributes s) = Returned (Some a)" "attr_handle a = attribute"
    and w: "write_value app s c a connection attribute (written bs buf_size) = (app', s', r)"
    using assms(2)
    by (auto simp: write_body_def split: option.splits outcome.splits prod.splits if_splits)
  then have "length (written bs buf_size) \<le> 512
      \<and> (\<exists>f. write_fn (attr_char a) = Some f
          \<and> app' = fst (f app \<lparr>wr_connection = c, wr_value = written bs buf_size\<rparr>))"
    using assms(2)
    by (auto simp: write_value_def split: if_splits option.splits prod.splits outcome.splits sum.splits)
  with mode s c a show ?thesis by auto
qed

theorem write_calls_handler_witness:
  "(0 :: u16) = 0 \<and> (0 :: u16) = 0 \<and> length (written [7] 1) \<le> 512
    \<and> (\<exists>s c a f. Some (test_state writable) = Some s \<and> connections s 1 = Some c
        \<and> find_attribute True 10 (attributes s) = Returned (Some a)
        \<and> attr_handle a = 10 \<and> write_fn (attr_char a) = Some f
        \<and> 1 = fst (f 0 \<lparr>wr_connection = c, wr_value = written [7] 1\<rparr>))"
  by (rule write_calls_handler [OF write_writable]) simp



section \<open>Subscriptions\<close>

text \<open>
  C17. A CCCD accepts exactly the two-byte values 0 and 1 and refuses every other bit: an accepted
  write sets the flag of this connection and characteristic, reports the change, does not involve the
  application, and is what the peer reads back; a refused one changes nothing.
\<close>

theorem cccd_write_read:
  assumes "connections s connection = Some c"
    and "find_attribute oc attribute (attributes s) = Returned (Some a)"
    and "attr_handle a \<noteq> attribute"
  shows "if y \<noteq> 0 \<or> 1 < x
    then att_write oc app (Some s) connection attribute 0 0 [x, y] 2
           = (app, Some s, status_i32 ValueNotAllowed)
    else (\<exists>s'. att_write oc app (Some s) connection attribute 0 0 [x, y] 2 = (app, Some s', 0)
      \<and> flag (subscriptions s') (connection, attr_handle a) = (x = 1)
      \<and> events s' = send_ignored (SubscriptionChanged c (ch_uuid (attr_char a))
            (if x = 1 then Subscription_Notify else Subscription_None)) (events s)
      \<and> (\<exists>s''. att_read oc app (Some s') connection attribute 0 False 2 = (app, Some s'', 2, [x, y])))"
proof (cases "y \<noteq> 0 \<or> 1 < x")
  case True
  with assms show ?thesis
    by (simp add: att_write_eq written_def write_body_def write_cccd_def catch_unwind_def)
next
  case False
  let ?s' = "set_subscription s c a connection attribute (x = 1)"
  from False have "y = 0" and "x = 0 \<or> x = 1" using u8_le_1 [of x] by auto
  then have "att_write oc app (Some s) connection attribute 0 0 [x, y] 2 = (app, Some ?s', 0)"
    using assms
    by (elim disjE) (simp_all add: att_write_eq written_def write_body_def write_cccd_def catch_unwind_def)
  moreover have "\<exists>s''. att_read oc app (Some ?s') connection attribute 0 False 2 = (app, Some s'', 2, [x, y])"
    using assms \<open>y = 0\<close> \<open>x = 0 \<or> x = 1\<close>
    by (elim disjE)
      (simp_all add: att_read_def read_body_def refresh_snapshot_def read_value_def copy_value_def
        catch_unwind_def)
  moreover have "events ?s' = send_ignored (SubscriptionChanged c (ch_uuid (attr_char a))
      (if x = 1 then Subscription_Notify else Subscription_None)) (events s)"
    by (simp add: set_subscription_def)
  ultimately show ?thesis using False by auto
qed

theorem cccd_write_read_witness:
  "if (0 :: u8) \<noteq> 0 \<or> 1 < (1 :: u8)
    then att_write True 0 (Some (test_state notifiable)) 1 11 0 0 [1, 0] 2
           = (0, Some (test_state notifiable), status_i32 ValueNotAllowed)
    else (\<exists>s'. att_write True 0 (Some (test_state notifiable)) 1 11 0 0 [1, 0] 2 = (0, Some s', 0)
      \<and> flag (subscriptions s') (1, attr_handle \<lparr>attr_handle = 10, attr_char = notifiable\<rparr>) = ((1 :: u8) = 1)
      \<and> events s' = send_ignored (SubscriptionChanged (test_connection 1)
            (ch_uuid (attr_char \<lparr>attr_handle = 10, attr_char = notifiable\<rparr>))
            (if (1 :: u8) = 1 then Subscription_Notify else Subscription_None))
            (events (test_state notifiable))
      \<and> (\<exists>s''. att_read True 0 (Some s') 1 11 0 False 2 = (0, Some s'', 2, [1, 0])))"
  by (rule cccd_write_read) (simp_all add: test_chars add_u16_def)

section \<open>Isolation and panics\<close>

text \<open>
  Peers are isolated: a read or a write by one connection leaves the attribute table, the
  connections and the notification queue alone, and the subscriptions and snapshots of every other
  connection; a read changes no subscription and reports no event.
\<close>

theorem callbacks_are_per_connection:
  "(\<exists>s'. fst (snd (att_read oc app (Some s) connection attribute offset null buf_size)) = Some s'
      \<and> callback_frame connection s s' \<and> subscriptions s' = subscriptions s \<and> events s' = events s)
   \<and> (\<exists>s'. fst (snd (att_write oc app (Some s) connection attribute mode offset' bs buf_size)) = Some s'
      \<and> callback_frame connection s s')"
proof (rule conjI)
  obtain app' st' code out where
    eq: "att_read oc app (Some s) connection attribute offset null buf_size = (app', st', code, out)"
    by (cases "att_read oc app (Some s) connection attribute offset null buf_size") auto
  from att_read_ok [OF eq] obtain s' where "st' = Some s'" "callback_frame connection s s'"
    "subscriptions s' = subscriptions s" "events s' = events s" .
  with eq show "\<exists>s'. fst (snd (att_read oc app (Some s) connection attribute offset null buf_size)) = Some s'
      \<and> callback_frame connection s s' \<and> subscriptions s' = subscriptions s \<and> events s' = events s"
    by simp
next
  obtain app' st' code where
    eq: "att_write oc app (Some s) connection attribute mode offset' bs buf_size = (app', st', code)"
    by (cases "att_write oc app (Some s) connection attribute mode offset' bs buf_size") auto
  from att_write_ok [OF eq] obtain s' where "st' = Some s'" "callback_frame connection s s'" .
  with eq show "\<exists>s'. fst (snd (att_write oc app (Some s) connection attribute mode offset' bs buf_size)) = Some s'
      \<and> callback_frame connection s s'"
    by simp
qed




end
