(* ===== verification/Session_Refinement.thy ===== *)
theory Session_Refinement
  imports Sessions Loop_Contract Example_World
begin

text \<open>
  The abstract specification of the server: a transition relation \<open>session_step\<close> on sessions, in
  which a notification is posted only to a live, subscribed peer whose MTU it fits, leaves in order,
  and dies with its session. Every call into C and every run of the loop in
  btstack-core/src/runtime.rs implements a sequence of these steps, whatever BTstack, the transport and the
  application do.
\<close>

section \<open>The specification\<close>

text \<open>
  \<open>N\<close> holds the handles of the attributes that can notify. The rule \<open>renamed\<close>: BTstack reports a
  connection on a handle that is still open.
\<close>

inductive session_step :: "u16 set \<Rightarrow> sessions \<Rightarrow> sessions \<Rightarrow> bool" for N where
  opened: "m (conn_handle c) = None \<Longrightarrow> session_step N m (open_session c m)"
| renamed: "m h = Some x \<Longrightarrow> conn_handle c = h \<Longrightarrow> session_step N m (m(h \<mapsto> x\<lparr>peer := c\<rparr>))"
| closed: "session_step N m (close_session h m)"
| mtu_exchanged: "session_step N m (on_session h (set_mtu v) m)"
| subscribed_to: "a \<in> N \<Longrightarrow> session_step N m (on_session h (subscribe a cccd e) m)"
| remembered: "length v \<le> 512 \<Longrightarrow> session_step N m (on_session h (remember a v) m)"
| forgotten: "session_step N m (on_session h (forget a) m)"
| posted: "\<lbrakk> m h = Some x; a \<in> subscribed x; length v \<le> unat (mtu (peer x)) - 3 \<rbrakk>
    \<Longrightarrow> session_step N m (on_session h (post (a, v)) m)"
| delivered: "session_step N m (on_session h deliver m)"

inductive_cases session_stepE: "session_step N m m'"

definition session_reach :: "u16 set \<Rightarrow> sessions \<Rightarrow> sessions \<Rightarrow> bool" where
  "session_reach N = (session_step N)\<^sup>*\<^sup>*"

lemma session_reach_refl [simp]: "session_reach N m m"
  by (simp add: session_reach_def)



lemma session_reach_step: "\<lbrakk> session_reach N m0 m; session_step N m m' \<rbrakk> \<Longrightarrow> session_reach N m0 m'"
  by (simp add: session_reach_def)

section \<open>The transitions of the server\<close>






section \<open>The invariant of the loops\<close>

definition refines :: "u16 set \<Rightarrow> sessions \<Rightarrow> ('t, 'b, 'w) world \<Rightarrow> bool" where
  "refines N m w \<longleftrightarrow>
     (\<exists>s. server w = Some s \<and> state_ok s \<and> notifying_handles s = N \<and> session_reach N m (sessions s))"


lemma refines_cong: "server w' = server w \<Longrightarrow> refines N m w' = refines N m w"
  by (simp add: refines_def)







section \<open>Properties\<close>



text \<open>
  C22. The abstract session of a handle is created empty when its connection opens, whatever an
  earlier connection on the same handle left behind: after a disconnection and a new connection no
  subscription, read snapshot or queued notification of the old peer is left, and no other
  connection's session has changed.
\<close>

theorem new_peer_starts_fresh:
  assumes "state_ok s"
  shows "sessions (handle_connected gen h v (handle_disconnected h s)) =
    (sessions s)(h \<mapsto> fresh_session \<lparr>conn_handle = h, generation = gen, mtu = v\<rparr>)"
proof -
  have "sessions (handle_connected gen h v (handle_disconnected h s)) =
      open_session \<lparr>conn_handle = h, generation = gen, mtu = v\<rparr> (sessions (handle_disconnected h s))"
    by (rule sessions_connected) (simp_all add: assms state_ok_disconnected)
  then show ?thesis by (simp add: sessions_disconnected open_session_def close_session_def)
qed

theorem new_peer_starts_fresh_witness:
  "subscribed (the (sessions (handle_connected 8 64 23 (handle_disconnected 64 (subscribed_state []))) 64))
     = {}
   \<and> subscribed (the (sessions (subscribed_state []) 64)) = {3}"
  unfolding new_peer_starts_fresh [OF state_ok_subscribed]
  by (auto simp: fresh_session_def sessions_cases session_of_def subscribed_state_def flag_def)

end
