(* ===== verification/Call_Protocol.thy ===== *)
theory Call_Protocol
  imports Runtime_Properties
begin

text \<open>
  The application's thread and the stack thread together (btstack-core/src/runtime.rs): the calls of a
  \<^verbatim>\<open>Runtime\<close> against the loop of its worker, step by step in every interleaving, through
  the real bounded command channel and the answer channels. A \<^verbatim>\<open>Runtime\<close> owns an
  \<^verbatim>\<open>mpsc::Receiver\<close>, so it is not \<^verbatim>\<open>Sync\<close> and its calls come one after the other:
  the client is one sequential thread. The theorems say that every interleaving is a \<open>run\<close> on some
  inputs, so what is proved of \<open>run\<close> and \<open>worker\<close> holds of the whole program.
\<close>

section \<open>The two threads\<close>

text \<open>
  The worker: in the loop \<^verbatim>\<open>for _ in 0..128\<close> with so many polls left (none: past it), past the
  main loop with what \<^verbatim>\<open>run\<close> gave, or over. The client: waiting for the start, free, waiting
  for the answer to a notify, joining (the flag: because the start failed), or with its last result.
\<close>

datatype ('t, 'b, 'w) thread_pc =
    Polling nat
  | Leaving_Run "(error + unit) outcome"
  | Over "('t, 'b, 'w) worker_status"

datatype client_pc = Starting | Ready | Waiting nat | Joining_Worker bool | Closed "error + unit"

text \<open>
  The last three fields are history: the commands the channel accepted, the inputs of the iterations that
  are over, and the polls of the current one.
\<close>

record ('t, 'b, 'w) system =
  command_queue :: "command channel"
  loop_local :: run_local
  thread_world :: "('t, 'b, 'w) world"
  thread_pc :: "('t, 'b, 'w) thread_pc"
  client_pc :: client_pc
  next_answer :: nat
  call_results :: "(nat \<times> (error + unit)) list"
  accepted :: "command list"
  past_inputs :: "run_input list"
  current_polls :: "command received list"

text \<open>The worker at the head of its loop, after \<^verbatim>\<open>rs_start\<close>; the client waits for readiness.\<close>

definition system_start :: "('t, 'b, 'w) world \<Rightarrow> ('t, 'b, 'w) system" where
  "system_start w =
     \<lparr>command_queue = sync_channel 128, loop_local = run_start, thread_world = w,
      thread_pc = Polling 128, client_pc = Starting, next_answer = 0, call_results = [],
      accepted = [], past_inputs = [], current_polls = []\<rparr>"

section \<open>The worker's steps\<close>

text \<open>The loop is left: \<^verbatim>\<open>run\<close> owns the receiver and drops it.\<close>

definition leave_run ::
  "nat \<Rightarrow> (error + unit) outcome \<Rightarrow> ('t, 'b, 'w) system \<Rightarrow> ('t, 'b, 'w) system" where
  "leave_run t r s =
     s\<lparr>command_queue := drop_receiver (command_queue s), thread_pc := Leaving_Run r,
       past_inputs := past_inputs s @ [\<lparr>polls = current_polls s, elapsed = t\<rparr>], current_polls := []\<rparr>"

text \<open>One \<^verbatim>\<open>try_recv\<close> and what follows it; \<open>n\<close> polls are left after it.\<close>

definition poll_step ::
  "('t, 'b) env \<Rightarrow> nat \<Rightarrow> ('t, 'b, 'w) system \<Rightarrow> ('t, 'b, 'w) system" where
  "poll_step env n s0 =
     (case try_recv (command_queue s0) of
        (p, ch) \<Rightarrow>
          (let s = s0\<lparr>command_queue := ch, current_polls := current_polls s0 @ [p]\<rparr>
           in case p of
                Received c \<Rightarrow>
                  (case process_command env c (loop_local s) (thread_world s) of
                     (rl, w, Next) \<Rightarrow> s\<lparr>loop_local := rl, thread_world := w, thread_pc := Polling n\<rparr>
                   | (rl, w, Exit r) \<Rightarrow> leave_run 0 r (s\<lparr>loop_local := rl, thread_world := w\<rparr>))
              | Nothing_Yet \<Rightarrow> s\<lparr>thread_pc := Polling 0\<rparr>
              | Senders_Gone \<Rightarrow> leave_run 0 (Returned (Inr ())) s))"

text \<open>The rest of an iteration, \<open>t\<close> nanoseconds after the loop began.\<close>

definition loop_turn ::
  "('t, 'b) env \<Rightarrow> nat \<Rightarrow> run_local \<Rightarrow> ('t, 'b, 'w) world
     \<Rightarrow> run_local \<times> ('t, 'b, 'w) world \<times> flow" where
  "loop_turn env t rl w =
     (case receive_and_poll env w of
        (w', Exit r) \<Rightarrow> (rl, w', Exit r)
      | (w', Next) \<Rightarrow>
          (case drain_events env rl w' of
             (rl', w'', Exit r) \<Rightarrow> (rl', w'', Exit r)
           | (rl', w'', Next) \<Rightarrow> (rl', w'', check_startup t rl')))"

definition turn_step ::
  "('t, 'b) env \<Rightarrow> nat \<Rightarrow> ('t, 'b, 'w) system \<Rightarrow> ('t, 'b, 'w) system" where
  "turn_step env t s =
     (case loop_turn env t (loop_local s) (thread_world s) of
        (rl, w, Next) \<Rightarrow>
          s\<lparr>loop_local := rl, thread_world := w, thread_pc := Polling 128,
            past_inputs := past_inputs s @ [\<lparr>polls = current_polls s, elapsed = t\<rparr>], current_polls := []\<rparr>
      | (rl, w, Exit r) \<Rightarrow> leave_run t r (s\<lparr>loop_local := rl, thread_world := w\<rparr>))"

text \<open>
  The shutdown of the controller and the teardown, with \<open>expired\<close> as the deadline checks;
  \<open>None\<close> if the shutdown loop is not over with them.
\<close>

definition teardown_step ::
  "('t, 'b) env \<Rightarrow> bool list \<Rightarrow> (error + unit) outcome \<Rightarrow> ('t, 'b, 'w) system
     \<Rightarrow> ('t, 'b, 'w) system option" where
  "teardown_step env expired r s =
     (case worker_stop env expired (loop_local s) (catch_unwind (Inl Runtime_Panicked) r) (thread_world s) of
        Finished e w \<Rightarrow> Some (s\<lparr>thread_pc := Over (Finished e w)\<rparr>)
      | Crashed \<Rightarrow> Some (s\<lparr>thread_pc := Over Crashed\<rparr>)
      | _ \<Rightarrow> None)"

text \<open>What the join of the thread returns.\<close>

definition join_worker :: "('t, 'b, 'w) worker_status \<Rightarrow> (error + unit) outcome" where
  "join_worker st = (case st of Finished e _ \<Rightarrow> Returned (result e) | _ \<Rightarrow> Panicked)"

section \<open>The client's steps\<close>

text \<open>\<^verbatim>\<open>notify\<close> up to its wait: the number of the call names its answer channel.\<close>

definition call_notify ::
  "gatt_connection \<Rightarrow> uuid \<Rightarrow> bytes \<Rightarrow> ('t, 'b, 'w) system \<Rightarrow> ('t, 'b, 'w) system" where
  "call_notify c u v s0 =
     (let i = next_answer s0; s = s0\<lparr>next_answer := i + 1\<rparr>
      in if 512 < length v then s\<lparr>call_results := call_results s @ [(i, Inl Value_Exceeds_512)]\<rparr>
         else case try_send (Notify c u v i) (command_queue s) of
                (Inl _, _) \<Rightarrow> s\<lparr>call_results := call_results s @ [(i, Inl Queue_Full_Or_Stopped)]\<rparr>
              | (Inr _, ch) \<Rightarrow>
                  s\<lparr>command_queue := ch, accepted := accepted s @ [Notify c u v i], client_pc := Waiting i\<rparr>)"

text \<open>Its wait ends with the answer, or without one (three seconds, or the loop dropped the command).\<close>

definition take_answer :: "nat \<Rightarrow> ('t, 'b, 'w) system \<Rightarrow> ('t, 'b, 'w) system option" where
  "take_answer i s =
     map_option (\<lambda>r. s\<lparr>call_results := call_results s @ [(i, r)], client_pc := Ready\<rparr>)
       (map_of (replies (loop_local s)) i)"

definition give_up :: "nat \<Rightarrow> ('t, 'b, 'w) system \<Rightarrow> ('t, 'b, 'w) system option" where
  "give_up i s =
     (if map_of (replies (loop_local s)) i = None
      then Some (s\<lparr>call_results := call_results s @ [(i, Inl Enqueue_Timed_Out)], client_pc := Ready\<rparr>)
      else None)"

text \<open>\<^verbatim>\<open>shutdown\<close>: the blocking send of Stop (\<open>None\<close> while the channel is full), then the join.\<close>

definition call_shutdown :: "bool \<Rightarrow> ('t, 'b, 'w) system \<Rightarrow> ('t, 'b, 'w) system option" where
  "call_shutdown starting s =
     map_option (\<lambda>ch.
         s\<lparr>command_queue := ch, client_pc := Joining_Worker starting,
           accepted := accepted s @ (if receiver_alive (command_queue s) then [Stop] else [])\<rparr>)
       (send_blocking Stop (command_queue s))"

definition join_step ::
  "bool \<Rightarrow> ('t, 'b, 'w) worker_status \<Rightarrow> ('t, 'b, 'w) system \<Rightarrow> ('t, 'b, 'w) system" where
  "join_step starting st s =
     s\<lparr>client_pc := Closed (if starting then await_ready 0 (join_worker st)
                           else catch_unwind (Inl Thread_Panicked) (join_worker st))\<rparr>"

section \<open>The interleavings\<close>

datatype turn =
    Poll_Command | Loop_Turn nat | Teardown "bool list"
  | Start_Returns | Start_Gives_Up
  | Call_Notify gatt_connection uuid bytes | Take_Answer | Give_Up | Call_Shutdown | Join

fun system_step ::
  "('t, 'b) env \<Rightarrow> turn \<Rightarrow> ('t, 'b, 'w) system \<Rightarrow> ('t, 'b, 'w) system option" where
  "system_step env Poll_Command s =
     (case thread_pc s of Polling (Suc n) \<Rightarrow> Some (poll_step env n s) | _ \<Rightarrow> None)"
| "system_step env (Loop_Turn t) s =
     (case thread_pc s of Polling 0 \<Rightarrow> Some (turn_step env t s) | _ \<Rightarrow> None)"
| "system_step env (Teardown expired) s =
     (case thread_pc s of Leaving_Run r \<Rightarrow> teardown_step env expired r s | _ \<Rightarrow> None)"
| "system_step env Start_Returns s =
     (if client_pc s = Starting \<and> 1 \<le> ready_signals (loop_local s)
      then Some (s\<lparr>client_pc := Ready\<rparr>) else None)"
| "system_step env Start_Gives_Up s =
     (if client_pc s = Starting \<and> ready_signals (loop_local s) = 0 then call_shutdown True s else None)"
| "system_step env (Call_Notify c u v) s =
     (if client_pc s = Ready then Some (call_notify c u v s) else None)"
| "system_step env Take_Answer s = (case client_pc s of Waiting i \<Rightarrow> take_answer i s | _ \<Rightarrow> None)"
| "system_step env Give_Up s = (case client_pc s of Waiting i \<Rightarrow> give_up i s | _ \<Rightarrow> None)"
| "system_step env Call_Shutdown s = (if client_pc s = Ready then call_shutdown False s else None)"
| "system_step env Join s =
     (case (client_pc s, thread_pc s) of
        (Joining_Worker b, Over st) \<Rightarrow> Some (join_step b st s)
      | _ \<Rightarrow> None)"

fun system_run ::
  "('t, 'b) env \<Rightarrow> turn list \<Rightarrow> ('t, 'b, 'w) system \<Rightarrow> ('t, 'b, 'w) system option" where
  "system_run env [] s = Some s"
| "system_run env (a # as) s = Option.bind (system_step env a s) (system_run env as)"

lemma system_run_append:
  "system_run env (as @ bs) s = Option.bind (system_run env as s) (system_run env bs)"
  by (induction "as" arbitrary: s) (auto split: Option.bind_split)

section \<open>Every interleaving is a run\<close>

lemma drain_append:
  "drain_commands env (length cs + n) (map Received cs @ ps) rl w =
     (case drain_commands env (length cs + n) (map Received cs) rl w of
        (rl', w', Next) \<Rightarrow> drain_commands env n ps rl' w'
      | (rl', w', Exit r) \<Rightarrow> (rl', w', Exit r))"
proof (induction cs arbitrary: rl w)
  case Nil
  then show ?case by (cases n) simp_all
next
  case (Cons c cs)
  then show ?case by (simp split: prod.split flow.split)
qed

lemma drain_none: "drain_commands env n [] rl w = (rl, w, Next)"
  by (cases n) simp_all

lemma run_snoc:
  "run env (inps @ [i]) rl w =
     (case run env inps rl w of
        (rl', w', Next) \<Rightarrow> run_iteration env i rl' w'
      | (rl', w', Exit r) \<Rightarrow> (rl', w', Exit r))"
  by (induction inps arbitrary: rl w) (simp_all split: prod.split flow.split)

lemma run_iteration_turn:
  "drain_commands env 128 (polls i) rl w = (rl1, w1, Next) \<Longrightarrow>
     run_iteration env i rl w = loop_turn env (elapsed i) rl1 w1"
  by (simp add: run_iteration_def loop_turn_def)

lemma run_iteration_left:
  "drain_commands env 128 (polls i) rl w = (rl1, w1, Exit r) \<Longrightarrow>
     run_iteration env i rl w = (rl1, w1, Exit r)"
  by (simp add: run_iteration_def)

definition all_received :: "nat \<Rightarrow> command received list \<Rightarrow> bool" where
  "all_received n ps \<longleftrightarrow> (\<exists>cs. ps = map Received cs \<and> length cs + n = 128)"

text \<open>The worker's part of the state is what \<open>run\<close> computes from the recorded inputs.\<close>

definition follows_run ::
  "('t, 'b) env \<Rightarrow> ('t, 'b, 'w) world \<Rightarrow> ('t, 'b, 'w) system \<Rightarrow> bool" where
  "follows_run env w0 s \<longleftrightarrow>
     (case thread_pc s of
        Polling n \<Rightarrow>
          (\<exists>rl w. run env (past_inputs s) run_start w0 = (rl, w, Next)
             \<and> drain_commands env 128 (current_polls s) rl w = (loop_local s, thread_world s, Next))
          \<and> (n = 0 \<or> all_received n (current_polls s))
      | Leaving_Run r \<Rightarrow>
          run env (past_inputs s) run_start w0 = (loop_local s, thread_world s, Exit r)
      | Over st \<Rightarrow>
          (\<exists>r w expired. run env (past_inputs s) run_start w0 = (loop_local s, w, Exit r)
             \<and> worker_stop env expired (loop_local s) (catch_unwind (Inl Runtime_Panicked) r) w = st))"

lemma drain_one_more:
  assumes "drain_commands env 128 ps rl w = (rl1, w1, Next)" and "all_received (Suc n) ps"
  shows "drain_commands env 128 (ps @ [p]) rl w = drain_commands env (Suc n) [p] rl1 w1"
proof -
  from assms(2) obtain cs where cs: "ps = map Received cs" "length cs + Suc n = 128"
    by (auto simp: all_received_def)
  with assms(1) drain_append [of env cs "Suc n" "[p]" rl w] show ?thesis by simp
qed

lemma all_received_more: "all_received (Suc n) ps \<Longrightarrow> all_received n (ps @ [Received c])"
  unfolding all_received_def by (elim exE, rule_tac x = "cs @ [c]" in exI) simp

lemma run_left:
  assumes "run env inps rl0 w0 = (rl, w, Next)" and "drain_commands env 128 ps rl w = (rl1, w1, Exit r)"
  shows "run env (inps @ [\<lparr>polls = ps, elapsed = t\<rparr>]) rl0 w0 = (rl1, w1, Exit r)"
  using assms by (simp add: run_snoc run_iteration_left)

text \<open>The four outcomes of a poll.\<close>

lemma poll_step_cases:
  obtains (command) c ch rl w where "try_recv (command_queue s) = (Received c, ch)"
      "process_command env c (loop_local s) (thread_world s) = (rl, w, Next)"
      "poll_step env n s = s\<lparr>command_queue := ch, current_polls := current_polls s @ [Received c],
         loop_local := rl, thread_world := w, thread_pc := Polling n\<rparr>"
  | (leave) c ch rl w r where "try_recv (command_queue s) = (Received c, ch)"
      "process_command env c (loop_local s) (thread_world s) = (rl, w, Exit r)"
      "poll_step env n s = leave_run 0 r (s\<lparr>command_queue := ch,
         current_polls := current_polls s @ [Received c], loop_local := rl, thread_world := w\<rparr>)"
  | (empty) ch where "try_recv (command_queue s) = (Nothing_Yet, ch)"
      "poll_step env n s = s\<lparr>command_queue := ch, current_polls := current_polls s @ [Nothing_Yet],
         thread_pc := Polling 0\<rparr>"
  | (gone) ch where "try_recv (command_queue s) = (Senders_Gone, ch)"
      "poll_step env n s = leave_run 0 (Returned (Inr ())) (s\<lparr>command_queue := ch,
         current_polls := current_polls s @ [Senders_Gone]\<rparr>)"
proof -
  obtain p ch where p: "try_recv (command_queue s) = (p, ch)" by (cases "try_recv (command_queue s)")
  show thesis
  proof (cases p)
    case (Received c)
    obtain rl w f where c: "process_command env c (loop_local s) (thread_world s) = (rl, w, f)"
      by (cases "process_command env c (loop_local s) (thread_world s)") auto
    with p Received that(1,2) show thesis by (cases f) (simp_all add: poll_step_def)
  qed (use p that(3,4) in \<open>simp_all add: poll_step_def\<close>)
qed

lemma follows_poll:
  assumes "follows_run env w0 s" and "thread_pc s = Polling (Suc n)"
  shows "follows_run env w0 (poll_step env n s)"
proof -
  from assms obtain rl w where r: "run env (past_inputs s) run_start w0 = (rl, w, Next)"
    and d: "drain_commands env 128 (current_polls s) rl w = (loop_local s, thread_world s, Next)"
    and all: "all_received (Suc n) (current_polls s)"
    by (auto simp: follows_run_def)
  note more = drain_one_more [OF d all]
  show ?thesis
  proof (cases rule: poll_step_cases [of s env n])
    case (command c ch rl1 w1)
    then show ?thesis using r more [of "Received c"] all_received_more [OF all, of c]
      by (cases n) (simp_all add: follows_run_def)
  next
    case (leave c ch rl1 w1 x)
    then show ?thesis using run_left [OF r] more [of "Received c"]
      by (simp add: follows_run_def leave_run_def)
  next
    case (empty ch)
    then show ?thesis using r more [of Nothing_Yet] by (simp add: follows_run_def)
  next
    case (gone ch)
    then show ?thesis using run_left [OF r] more [of Senders_Gone]
      by (simp add: follows_run_def leave_run_def)
  qed
qed

lemma follows_turn:
  assumes "follows_run env w0 s" and "thread_pc s = Polling 0"
  shows "follows_run env w0 (turn_step env t s)"
proof -
  from assms obtain rl w where r: "run env (past_inputs s) run_start w0 = (rl, w, Next)"
    and d: "drain_commands env 128 (current_polls s) rl w = (loop_local s, thread_world s, Next)"
    by (auto simp: follows_run_def)
  let ?i = "\<lparr>polls = current_polls s, elapsed = t\<rparr>"
  have "run env (past_inputs s @ [?i]) run_start w0 = loop_turn env t (loop_local s) (thread_world s)"
    using r run_iteration_turn [of env ?i rl w] d by (simp add: run_snoc)
  then show ?thesis
    by (cases "loop_turn env t (loop_local s) (thread_world s)")
      (auto simp: turn_step_def follows_run_def leave_run_def all_received_def drain_none
          split: flow.split)
qed

lemma follows_teardown:
  assumes "follows_run env w0 s" and "thread_pc s = Leaving_Run r"
    and "teardown_step env expired r s = Some s'"
  shows "follows_run env w0 s'"
  using assms
  by (auto simp: follows_run_def teardown_step_def split: worker_status.splits)

text \<open>The client's steps leave the worker's part alone.\<close>

definition same_worker :: "('t, 'b, 'w) system \<Rightarrow> ('t, 'b, 'w) system \<Rightarrow> bool" where
  "same_worker s s' \<longleftrightarrow>
     thread_pc s' = thread_pc s \<and> loop_local s' = loop_local s \<and> thread_world s' = thread_world s
     \<and> past_inputs s' = past_inputs s \<and> current_polls s' = current_polls s"

lemma follows_same_worker: "\<lbrakk> same_worker s s'; follows_run env w0 s \<rbrakk> \<Longrightarrow> follows_run env w0 s'"
  unfolding same_worker_def follows_run_def by (elim conjE) (simp only:)

lemmas client_defs = call_notify_def take_answer_def give_up_def call_shutdown_def join_step_def Let_def

fun worker_turn :: "turn \<Rightarrow> bool" where
  "worker_turn Poll_Command = True"
| "worker_turn (Loop_Turn t) = True"
| "worker_turn (Teardown expired) = True"
| "worker_turn _ = False"

lemma system_step_cases:
  assumes "system_step env a s = Some s'"
  obtains (poll) n where "thread_pc s = Polling (Suc n)" "s' = poll_step env n s" "a = Poll_Command"
  | (turn) t where "thread_pc s = Polling 0" "s' = turn_step env t s" "a = Loop_Turn t"
  | (teardown) r expired where "thread_pc s = Leaving_Run r" "teardown_step env expired r s = Some s'"
      "a = Teardown expired"
  | (client) "same_worker s s'" "\<not> worker_turn a"
proof (cases a)
  case Poll_Command
  with assms poll show thesis by (auto split: thread_pc.splits nat.splits)
next
  case (Loop_Turn t)
  with assms turn show thesis by (auto split: thread_pc.splits nat.splits)
next
  case (Teardown expired)
  with assms teardown show thesis by (auto split: thread_pc.splits)
qed (use assms client in \<open>auto simp: same_worker_def client_defs
    split: client_pc.splits thread_pc.splits if_splits prod.splits sum.splits\<close>)

lemma follows_step:
  assumes "system_step env a s = Some s'" and "follows_run env w0 s"
  shows "follows_run env w0 s'"
  using assms(1)
  by (cases rule: system_step_cases)
    (use assms(2) in \<open>blast intro: follows_poll follows_turn follows_teardown follows_same_worker\<close>)+

lemma follows_start: "follows_run env w (system_start w)"
  by (simp add: follows_run_def system_start_def all_received_def drain_none)

text \<open>An invariant of the steps is one of the runs.\<close>

lemma system_run_keeps:
  assumes "system_run env as s = Some s'" and "P s"
    and "\<And>a x y. system_step env a x = Some y \<Longrightarrow> P x \<Longrightarrow> P y"
  shows "P s'"
  using assms(1,2)
proof (induction "as" arbitrary: s)
  case (Cons a as)
  then obtain x where x: "system_step env a s = Some x" "system_run env as x = Some s'"
    by (auto simp: bind_eq_Some_conv)
  from Cons.IH [OF x(2) assms(3) [OF x(1) Cons.prems(2)]] show ?case .
qed simp

lemma follows_system_run:
  assumes "system_run env as (system_start w0) = Some s"
  shows "follows_run env w0 s"
  by (rule system_run_keeps [where P = "follows_run env w0", OF assms follows_start follows_step])

section \<open>The worker's world and the answers\<close>

text \<open>Nothing outside the command loop answers a command.\<close>

lemma handle_event_replies:
  "handle_event env e rl w = (rl', w', f) \<Longrightarrow> replies rl' = replies rl"
  by (auto simp: handle_event_def split: prod.splits if_splits)

lemma drain_events_replies:
  "drain_events env rl w = (rl', w', f) \<Longrightarrow> replies rl' = replies rl"
proof (induction env rl w rule: drain_events.induct)
  case (1 env rl w)
  show ?case
  proof (cases "event_queue w")
    case Nil
    with "1.prems" show ?thesis by (simp add: drain_events_Nil)
  next
    case (Cons e es)
    obtain rl1 w1 f1 where h: "handle_event env e rl (w\<lparr>event_queue := es\<rparr>) = (rl1, w1, f1)"
      by (cases "handle_event env e rl (w\<lparr>event_queue := es\<rparr>)") auto
    from handle_event_replies [OF h] "1.IH" [OF Cons h [symmetric] refl] "1.prems" Cons h
    show ?thesis by (cases f1) (auto simp: drain_events_Cons)
  qed
qed

text \<open>Only a command, or the loss of the senders, ends the loop without an error.\<close>

lemma no_clean_exit:
  "receive_and_poll env w = (w', Exit r) \<Longrightarrow> r \<noteq> Returned (Inr ())"
  "handle_event env e rl w = (rl', w', Exit r) \<Longrightarrow> r \<noteq> Returned (Inr ())"
proof -
  show "receive_and_poll env w = (w', Exit r) \<Longrightarrow> r \<noteq> Returned (Inr ())"
    by (auto simp: receive_and_poll_def receive_packet_def poll_stack_def Let_def
        split: prod.splits option.splits outcome.splits sum.splits flow.splits)
  have "flush_notification env h w = (w', Exit r) \<Longrightarrow> r \<noteq> Returned (Inr ())" for h
    by (auto simp: flush_notification_def send_notification_def flow_of_def update_server_def
        split: prod.splits option.splits if_splits flow.splits outcome.splits)
  moreover have "connection_event k h v w = (w', Exit r) \<Longrightarrow> r \<noteq> Returned (Inr ())" for k h v
    by (auto simp: connection_event_def split: option.splits if_splits)
  ultimately show "handle_event env e rl w = (rl', w', Exit r) \<Longrightarrow> r \<noteq> Returned (Inr ())"
    by (auto simp: handle_event_def split: prod.splits if_splits)
qed

lemma drain_events_no_clean_exit:
  "drain_events env rl w = (rl', w', Exit r) \<Longrightarrow> r \<noteq> Returned (Inr ())"
proof (induction env rl w rule: drain_events.induct)
  case (1 env rl w)
  show ?case
  proof (cases "event_queue w")
    case Nil
    with "1.prems" show ?thesis by (simp add: drain_events_Nil)
  next
    case (Cons e es)
    obtain rl1 w1 f1 where h: "handle_event env e rl (w\<lparr>event_queue := es\<rparr>) = (rl1, w1, f1)"
      by (cases "handle_event env e rl (w\<lparr>event_queue := es\<rparr>)") auto
    with "1.IH" [OF Cons h [symmetric] refl] "1.prems" Cons no_clean_exit(2) [of env e rl _ rl1 w1]
    show ?thesis
      by (cases f1) (auto simp: drain_events_Cons)
  qed
qed

lemma loop_turn_effect:
  assumes "loop_turn env t rl w = (rl', w', f)"
  shows "replies rl' = replies rl" and "f \<noteq> Exit (Returned (Inr ()))"
    and "world_ok w \<Longrightarrow> world_ok w'"
proof -
  obtain w1 f1 where r: "receive_and_poll env w = (w1, f1)" by (cases "receive_and_poll env w")
  obtain rl2 w2 f2 where d: "drain_events env rl w1 = (rl2, w2, f2)"
    by (cases "drain_events env rl w1") auto
  show "replies rl' = replies rl"
    using assms r d drain_events_replies [OF d]
    by (cases f1; cases f2) (auto simp: loop_turn_def)
  show "f \<noteq> Exit (Returned (Inr ()))"
    using assms r d no_clean_exit(1) [of env w w1] drain_events_no_clean_exit [of env rl w1 rl2 w2]
    by (cases f1; cases f2) (auto simp: loop_turn_def check_startup_def split: if_splits)
  show "world_ok w'" if "world_ok w"
    using assms r d receive_and_poll_ok [OF that r] drain_events_ok [of w1 env rl rl2 w2 f2]
    by (cases f1; cases f2) (auto simp: loop_turn_def)
qed

lemma process_command_effect:
  assumes "world_ok w" and "process_command env c rl w = (rl', w', f)"
  shows "world_ok w'" and "map fst (replies rl') = map fst (replies rl) @ answer_id c"
    and "f = (if c = Stop then Exit (Returned (Inr ())) else Next)"
    and "set (replies rl) \<subseteq> set (replies rl')"
proof -
  show "world_ok w'" using process_command_ok [OF assms] by simp
  show "map fst (replies rl') = map fst (replies rl) @ answer_id c"
    and "f = (if c = Stop then Exit (Returned (Inr ())) else Next)"
    using assms process_notify_ok [OF assms(1)] by (cases c; force simp: process_command_def)+
  show "set (replies rl) \<subseteq> set (replies rl')"
    using assms(2)
    by (auto simp: process_command_def reply_def split: command.splits option.splits sum.splits)
qed

end
