(* ===== verification/Call_Properties.thy ===== *)
theory Call_Properties
  imports Call_Protocol "HOL-Library.Sublist"
begin

text \<open>
  What the composition of \<open>Call_Protocol\<close> guarantees: the invariant of the channel, the client and
  the answers, the bound on the worker's steps after Stop, a concrete session, and the properties.
\<close>

section \<open>The protocol's invariant\<close>

definition commands_of :: "command received list \<Rightarrow> command list" where
  "commands_of ps = concat (map (\<lambda>p. case p of Received c \<Rightarrow> [c] | _ \<Rightarrow> []) ps)"

definition answer_ids :: "command list \<Rightarrow> nat list" where
  "answer_ids cs = concat (map answer_id cs)"

text \<open>The commands the worker has received.\<close>

definition taken :: "('t, 'b, 'w) system \<Rightarrow> command list" where
  "taken s = commands_of (concat (map polls (past_inputs s)) @ current_polls s)"

fun is_polling :: "('t, 'b, 'w) thread_pc \<Rightarrow> bool" where
  "is_polling (Polling n) = True"
| "is_polling _ = False"

fun stop_sent :: "client_pc \<Rightarrow> bool" where
  "stop_sent (Joining_Worker b) = True"
| "stop_sent (Closed r) = True"
| "stop_sent _ = False"

lemma commands_of_simps [simp]:
  "commands_of [] = []" "commands_of (ps @ qs) = commands_of ps @ commands_of qs"
  "commands_of [Received c] = [c]" "commands_of [Nothing_Yet] = []" "commands_of [Senders_Gone] = []"
  by (simp_all add: commands_of_def)

lemma answer_ids_simps [simp]:
  "answer_ids [] = []" "answer_ids (cs @ ds) = answer_ids cs @ answer_ids ds"
  "answer_ids (c # cs) = answer_id c @ answer_ids cs"
  by (simp_all add: answer_ids_def)

text \<open>The worker ended, or will end, without an error.\<close>

fun ended_well :: "('t, 'b, 'w) thread_pc \<Rightarrow> bool" where
  "ended_well (Polling n) = False"
| "ended_well (Leaving_Run r) = (r = Returned (Inr ()))"
| "ended_well (Over st) = (join_worker st = Returned (Inr ()))"

lemma result_and_Inr: "result_and x y = Inr () \<Longrightarrow> x = Inr ()"
  by (cases x) (simp_all add: result_and_def)

lemma worker_finish_result: "worker_finish env rl q w = Finished e w' \<Longrightarrow> q = result e"
  by (auto simp: worker_finish_def Let_def split: outcome.splits option.splits)

lemma teardown_ends_well:
  assumes "teardown_step env expired r s = Some s'" and "ended_well (thread_pc s')"
  shows "r = Returned (Inr ())"
proof -
  have "catch_unwind (Inl Runtime_Panicked) r = Inr ()"
    using assms
    by (auto simp: teardown_step_def worker_stop_def join_worker_def
        split: worker_status.splits prod.splits flow.splits
        dest!: worker_finish_result dest: result_and_Inr)
  then show ?thesis by (cases r) (simp_all add: catch_unwind_def)
qed

text \<open>
  The channel: what was accepted is what was received followed by what is queued; what was received is
  answered, in that order; a loop that ended without an error left nothing behind.
\<close>

definition queue_ok :: "('t, 'b, 'w) system \<Rightarrow> bool" where
  "queue_ok s \<longleftrightarrow>
     (let q = command_queue s
      in capacity q = Some 128 \<and> senders q = 1 \<and> length (queued q) \<le> 128
         \<and> world_ok (thread_world s) \<and> map fst (replies (loop_local s)) = answer_ids (taken s)
         \<and> (if is_polling (thread_pc s) then receiver_alive q \<and> accepted s = taken s @ queued q \<and> Stop \<notin> set (taken s)
            else \<not> receiver_alive q \<and> queued q = [] \<and> prefix (taken s) (accepted s))
         \<and> (ended_well (thread_pc s) \<longrightarrow> (\<exists>cs. taken s = cs @ [Stop] \<and> accepted s = taken s)))"

text \<open>
  The client: its calls are numbered in order, an accepted notify has the number of its call, a result
  is a refusal, a time-out or the loop's answer, and Stop is the last command it sends.
\<close>

definition no_answer :: "(error + unit) set" where
  "no_answer = {Inl Value_Exceeds_512, Inl Queue_Full_Or_Stopped, Inl Enqueue_Timed_Out}"

definition calls_ok :: "('t, 'b, 'w) system \<Rightarrow> bool" where
  "calls_ok s \<longleftrightarrow>
     map fst (call_results s) @ (case client_pc s of Waiting i \<Rightarrow> [i] | _ \<Rightarrow> []) = [0..<next_answer s]
     \<and> sorted_wrt (<) (answer_ids (accepted s)) \<and> set (answer_ids (accepted s)) \<subseteq> {..<next_answer s}
     \<and> (\<forall>i r. (i, r) \<in> set (call_results s) \<longrightarrow> r \<in> no_answer \<or> (i, r) \<in> set (replies (loop_local s)))"

definition stop_ok :: "('t, 'b, 'w) system \<Rightarrow> bool" where
  "stop_ok s \<longleftrightarrow>
     (if stop_sent (client_pc s)
      then Stop \<notin> set (butlast (accepted s))
           \<and> (is_polling (thread_pc s) \<longrightarrow> accepted s \<noteq> [] \<and> last (accepted s) = Stop)
      else Stop \<notin> set (accepted s))"

definition system_ok :: "('t, 'b, 'w) system \<Rightarrow> bool" where
  "system_ok s \<longleftrightarrow> queue_ok s \<and> calls_ok s \<and> stop_ok s"

lemma system_ok_start: "world_ok w \<Longrightarrow> system_ok (system_start w)"
  by (simp add: system_ok_def queue_ok_def calls_ok_def stop_ok_def system_start_def sync_channel_def
      taken_def run_start_def Let_def)

lemma leave_run_fields [simp]:
  "command_queue (leave_run t r s) = drop_receiver (command_queue s)"
  "loop_local (leave_run t r s) = loop_local s" "thread_world (leave_run t r s) = thread_world s"
  "thread_pc (leave_run t r s) = Leaving_Run r" "client_pc (leave_run t r s) = client_pc s"
  "next_answer (leave_run t r s) = next_answer s" "call_results (leave_run t r s) = call_results s"
  "accepted (leave_run t r s) = accepted s" "current_polls (leave_run t r s) = []"
  "past_inputs (leave_run t r s) = past_inputs s @ [\<lparr>polls = current_polls s, elapsed = t\<rparr>]"
  by (simp_all add: leave_run_def taken_def)

lemma try_recv_cases:
  assumes "try_recv q = (p, ch)"
  shows "p = Received c \<Longrightarrow> queued q = c # queued ch \<and> capacity ch = capacity q
      \<and> senders ch = senders q \<and> receiver_alive ch = receiver_alive q"
    and "p = Nothing_Yet \<Longrightarrow> ch = q \<and> queued q = []"
    and "p = Senders_Gone \<Longrightarrow> senders q = 0"
  using assms by (auto simp: try_recv_def split: list.splits if_splits)

lemma nothing_after_Stop:
  assumes "Stop \<notin> set (butlast (xs @ Stop # ys))"
  shows "ys = []"
  using assms by (cases ys) (simp_all add: butlast_append)

lemma stop_ok_tail:
  assumes "stop_ok s" and "accepted s = xs @ Stop # ys"
  shows "ys = []"
  using assms nothing_after_Stop [of xs ys] by (auto simp: stop_ok_def split: if_splits)

text \<open>What a step of the worker must show.\<close>

lemma calls_ok_worker:
  assumes "calls_ok s" and "client_pc s' = client_pc s" and "next_answer s' = next_answer s"
    and "call_results s' = call_results s" and "accepted s' = accepted s"
    and "set (replies (loop_local s)) \<subseteq> set (replies (loop_local s'))"
  shows "calls_ok s'"
  using assms unfolding calls_ok_def by auto

lemma stop_ok_worker:
  assumes "stop_ok s" and "client_pc s' = client_pc s" and "accepted s' = accepted s"
    and "is_polling (thread_pc s') \<Longrightarrow> is_polling (thread_pc s)"
  shows "stop_ok s'"
  using assms unfolding stop_ok_def by auto

lemma system_ok_worker:
  assumes "system_ok s" and "client_pc s' = client_pc s" and "next_answer s' = next_answer s"
    and "call_results s' = call_results s" and "accepted s' = accepted s"
    and "set (replies (loop_local s)) \<subseteq> set (replies (loop_local s'))"
    and "is_polling (thread_pc s') \<Longrightarrow> is_polling (thread_pc s)" and "queue_ok s'"
  shows "system_ok s'"
  using assms calls_ok_worker [of s s'] stop_ok_worker [of s s'] unfolding system_ok_def by blast

lemma poll_keeps:
  assumes "system_ok s" and "thread_pc s = Polling (Suc n)"
  shows "system_ok (poll_step env n s)"
proof -
  from assms have q: "queue_ok s" and st: "stop_ok s" by (simp_all add: system_ok_def)
  from q assms(2) have acc: "accepted s = taken s @ queued (command_queue s)"
    and w: "world_ok (thread_world s)" and sn: "senders (command_queue s) = 1"
    by (simp_all add: queue_ok_def Let_def)
  show ?thesis
  proof (cases rule: poll_step_cases [of s env n])
    case (command cmd ch rl w1)
    note e = process_command_effect [OF w command(2)]
    note ch = try_recv_cases(1) [OF command(1) refl]
    from e(3) have "cmd \<noteq> Stop" by auto
    then have "queue_ok (poll_step env n s)"
      using q e(1,2) ch assms(2)
      by (simp add: command(3) queue_ok_def Let_def taken_def)
    with e(4) show ?thesis by (intro system_ok_worker [OF assms(1)]) (simp_all add: command(3) assms(2))
  next
    case (leave cmd ch rl w1 r)
    note e = process_command_effect [OF w leave(2)]
    note ch = try_recv_cases(1) [OF leave(1) refl]
    from e(3) have stop: "cmd = Stop" "r = Returned (Inr ())" by (auto split: if_splits)
    moreover have "queued ch = []" using stop_ok_tail [OF st, of "taken s" "queued ch"] acc ch stop(1) by simp
    ultimately have "queue_ok (poll_step env n s)"
      using q e(1,2) ch assms(2)
      by (simp add: leave(3) queue_ok_def Let_def taken_def drop_receiver_def)
    with e(4) show ?thesis by (intro system_ok_worker [OF assms(1)]) (simp_all add: leave(3) assms(2))
  next
    case (empty ch)
    have "queue_ok (poll_step env n s)"
      using try_recv_cases(2) [OF empty(1) refl] q assms(2)
      by (simp add: empty(2) queue_ok_def Let_def taken_def)
    then show ?thesis by (intro system_ok_worker [OF assms(1)]) (simp_all add: empty(2) assms(2))
  next
    case (gone ch)
    with try_recv_cases(3) [OF gone(1) refl] sn show ?thesis by simp
  qed
qed

lemma turn_keeps:
  assumes "system_ok s" and "thread_pc s = Polling 0"
  shows "system_ok (turn_step env t s)"
proof -
  obtain rl w f where l: "loop_turn env t (loop_local s) (thread_world s) = (rl, w, f)"
    by (cases "loop_turn env t (loop_local s) (thread_world s)") auto
  note e = loop_turn_effect [OF l]
  from assms have q: "queue_ok s" by (simp add: system_ok_def)
  then have w: "world_ok (thread_world s)" by (simp add: queue_ok_def Let_def)
  show ?thesis
  proof (cases f)
    case Next
    with l have t: "turn_step env t s = s\<lparr>loop_local := rl, thread_world := w, thread_pc := Polling 128,
        past_inputs := past_inputs s @ [\<lparr>polls = current_polls s, elapsed = t\<rparr>], current_polls := []\<rparr>"
      by (simp add: turn_step_def)
    have "queue_ok (turn_step env t s)"
      using q e(1) e(3) [OF w] assms(2) by (simp add: t queue_ok_def Let_def taken_def)
    with e(1) show ?thesis by (intro system_ok_worker [OF assms(1)]) (simp_all add: t assms(2))
  next
    case (Exit r)
    with l have t: "turn_step env t s = leave_run t r (s\<lparr>loop_local := rl, thread_world := w\<rparr>)"
      by (simp add: turn_step_def)
    have "queue_ok (turn_step env t s)"
      using q e(1,2) e(3) [OF w] assms(2) Exit
      by (auto simp: t queue_ok_def Let_def taken_def drop_receiver_def)
    with e(1) show ?thesis by (intro system_ok_worker [OF assms(1)]) (simp_all add: t assms(2))
  qed
qed

lemma teardown_keeps:
  assumes "system_ok s" and "thread_pc s = Leaving_Run r" and "teardown_step env expired r s = Some s'"
  shows "system_ok s'"
proof -
  from assms(3) obtain st where s': "s' = s\<lparr>thread_pc := Over st\<rparr>"
    by (auto simp: teardown_step_def split: worker_status.splits)
  from assms(1) have "queue_ok s" by (simp add: system_ok_def)
  with teardown_ends_well [OF assms(3)] assms(2) have "queue_ok s'"
    by (auto simp: s' queue_ok_def Let_def taken_def)
  then show ?thesis by (intro system_ok_worker [OF assms(1)]) (simp_all add: s')
qed

text \<open>The client's sends and waits.\<close>

lemma system_ok_accept:
  assumes "system_ok s" and "try_send c (command_queue s) = (Inr (), ch)"
    and "\<not> stop_sent (client_pc s)" and "same_worker s s'" and "command_queue s' = ch"
    and "accepted s' = accepted s @ [c]"
  shows "queue_ok s'" and "is_polling (thread_pc s)"
proof -
  from assms(2) have r: "receiver_alive (command_queue s)" and room: "has_room (command_queue s)"
    and ch: "ch = (command_queue s)\<lparr>queued := queued (command_queue s) @ [c]\<rparr>"
    by (auto simp: try_send_def split: if_splits)
  from assms(1) have q: "queue_ok s" by (simp add: system_ok_def)
  with r show p: "is_polling (thread_pc s)" by (auto simp: queue_ok_def Let_def split: if_splits)
  have "length (queued (command_queue s)) < 128" using q room by (simp add: queue_ok_def Let_def has_room_def)
  with q p assms(4-6) ch show "queue_ok s'"
    by (cases "thread_pc s") (simp_all add: queue_ok_def Let_def same_worker_def taken_def)
qed

lemma system_ok_quiet:
  assumes "queue_ok s" and "same_worker s s'" and "command_queue s' = command_queue s"
    and "accepted s' = accepted s"
  shows "queue_ok s'"
proof -
  have "taken s' = taken s" using assms(2) by (simp add: same_worker_def taken_def)
  with assms show ?thesis unfolding queue_ok_def same_worker_def Let_def by (elim conjE) (simp only: simp_thms)
qed

lemma notify_keeps:
  assumes "system_ok s" and "client_pc s = Ready"
  shows "system_ok (call_notify c u v s)"
proof -
  from assms have q: "queue_ok s" and k: "calls_ok s" and st: "stop_ok s" by (simp_all add: system_ok_def)
  from assms(2) k have ids: "map fst (call_results s) = [0..<next_answer s]" by (simp add: calls_ok_def)
  show ?thesis
  proof (cases "512 < length v \<or> fst (try_send (Notify c u v (next_answer s)) (command_queue s)) \<noteq> Inr ()")
    case True
    let ?e = "Inl (if 512 < length v then Value_Exceeds_512 else Queue_Full_Or_Stopped) :: error + unit"
    from True have e: "call_notify c u v s = s\<lparr>next_answer := next_answer s + 1,
        call_results := call_results s @ [(next_answer s, ?e)]\<rparr>"
      by (cases "try_send (Notify c u v (next_answer s)) (command_queue s)"; cases "512 < length v")
        (simp_all add: call_notify_def Let_def split: sum.split)
    have "?e \<in> no_answer" by (simp add: no_answer_def)
    have "queue_ok (call_notify c u v s)"
      by (rule system_ok_quiet [OF q]) (simp_all add: e same_worker_def)
    moreover have "calls_ok (call_notify c u v s)"
      using k ids \<open>?e \<in> no_answer\<close> assms(2) unfolding e calls_ok_def by (auto simp: less_Suc_eq)
    moreover have "stop_ok (call_notify c u v s)" using st by (simp add: e stop_ok_def)
    ultimately show ?thesis by (simp add: system_ok_def)
  next
    case False
    then obtain ch where ch: "try_send (Notify c u v (next_answer s)) (command_queue s) = (Inr (), ch)"
      and s': "call_notify c u v s = s\<lparr>next_answer := next_answer s + 1, command_queue := ch,
        accepted := accepted s @ [Notify c u v (next_answer s)], client_pc := Waiting (next_answer s)\<rparr>"
      by (cases "try_send (Notify c u v (next_answer s)) (command_queue s)")
        (auto simp: call_notify_def Let_def)
    have "queue_ok (call_notify c u v s)"
      by (rule system_ok_accept [OF assms(1) ch]) (simp_all add: s' same_worker_def assms(2))
    moreover have "calls_ok (call_notify c u v s)"
      using k ids assms(2) by (auto simp: s' calls_ok_def sorted_wrt_append less_Suc_eq)
    moreover have "stop_ok (call_notify c u v s)" using st assms(2) by (simp add: s' stop_ok_def)
    ultimately show ?thesis by (simp add: system_ok_def)
  qed
qed

lemma answer_keeps:
  assumes "system_ok s" and "client_pc s = Waiting i"
    and "s' = s\<lparr>call_results := call_results s @ [(i, r)], client_pc := Ready\<rparr>"
    and "r \<in> no_answer \<or> (i, r) \<in> set (replies (loop_local s))"
  shows "system_ok s'"
proof -
  from assms(1) have q: "queue_ok s" and k: "calls_ok s" and st: "stop_ok s" by (simp_all add: system_ok_def)
  have "queue_ok s'" by (rule system_ok_quiet [OF q]) (simp_all add: assms(3) same_worker_def)
  moreover have "calls_ok s'" using k assms(2,4) by (auto simp: assms(3) calls_ok_def)
  moreover have "stop_ok s'" using st assms(2) by (simp add: assms(3) stop_ok_def)
  ultimately show ?thesis by (simp add: system_ok_def)
qed

lemma shutdown_keeps:
  assumes "system_ok s" and "client_pc s \<in> {Starting, Ready}" and "call_shutdown b s = Some s'"
  shows "system_ok s'"
proof -
  from assms(2) have unsent: "\<not> stop_sent (client_pc s)" by auto
  from assms(1) have q: "queue_ok s" and k: "calls_ok s" and st: "stop_ok s" by (simp_all add: system_ok_def)
  from assms(2) k have ids: "map fst (call_results s) = [0..<next_answer s]" by (auto simp: calls_ok_def)
  show ?thesis
  proof (cases "receiver_alive (command_queue s)")
    case True
    with assms(3) obtain ch where ch: "try_send Stop (command_queue s) = (Inr (), ch)"
      and s': "s' = s\<lparr>command_queue := ch, client_pc := Joining_Worker b, accepted := accepted s @ [Stop]\<rparr>"
      by (auto simp: call_shutdown_def send_blocking_def send_ignored_def try_send_def split: if_splits)
    have "queue_ok s'" and p: "is_polling (thread_pc s)"
      by (rule system_ok_accept [OF assms(1) ch unsent, of s'], simp_all add: s' same_worker_def)+
    moreover have "calls_ok s'" using k ids by (simp add: s' calls_ok_def)
    moreover have "stop_ok s'" using st unsent p by (simp add: s' stop_ok_def)
    ultimately show ?thesis by (simp add: system_ok_def)
  next
    case False
    with assms(3) have s': "s' = s\<lparr>client_pc := Joining_Worker b\<rparr>"
      by (auto simp: call_shutdown_def send_blocking_def send_ignored_def try_send_def)
    have "queue_ok s'" by (rule system_ok_quiet [OF q]) (simp_all add: s' same_worker_def)
    moreover have "calls_ok s'" using k ids by (simp add: s' calls_ok_def)
    moreover have "\<not> is_polling (thread_pc s)" using q False by (auto simp: queue_ok_def Let_def)
    then have "stop_ok s'" using st unsent by (auto simp: s' stop_ok_def dest: in_set_butlastD)
    ultimately show ?thesis by (simp add: system_ok_def)
  qed
qed

lemma system_ok_step:
  assumes "system_step env a s = Some s'" and "system_ok s"
  shows "system_ok s'"
proof (cases a)
  case Start_Returns
  with assms(1) have s: "s' = s\<lparr>client_pc := Ready\<rparr>" "client_pc s = Starting" by (auto split: if_splits)
  from assms(2) have q: "queue_ok s" and k: "calls_ok s" "stop_ok s" by (simp_all add: system_ok_def)
  have "queue_ok s'" by (rule system_ok_quiet [OF q]) (simp_all add: s same_worker_def)
  with k s(2) show ?thesis by (simp add: s(1) system_ok_def calls_ok_def stop_ok_def)
next
  case Take_Answer
  with assms obtain i r where "client_pc s = Waiting i"
    and "s' = s\<lparr>call_results := call_results s @ [(i, r)], client_pc := Ready\<rparr>"
    and "map_of (replies (loop_local s)) i = Some r"
    by (auto simp: take_answer_def split: client_pc.splits)
  with answer_keeps [OF assms(2)] show ?thesis by (blast dest: map_of_SomeD)
next
  case Give_Up
  with assms obtain i where "client_pc s = Waiting i"
    and "s' = s\<lparr>call_results := call_results s @ [(i, Inl Enqueue_Timed_Out)], client_pc := Ready\<rparr>"
    by (auto simp: give_up_def split: client_pc.splits if_splits)
  with answer_keeps [OF assms(2)] show ?thesis by (simp add: no_answer_def)
next
  case Join
  with assms obtain b st where "client_pc s = Joining_Worker b" "s' = join_step b st s"
    by (auto split: client_pc.splits thread_pc.splits)
  then obtain r where s: "client_pc s = Joining_Worker b" "s' = s\<lparr>client_pc := Closed r\<rparr>"
    by (auto simp: join_step_def)
  from assms(2) have q: "queue_ok s" and k: "calls_ok s" "stop_ok s" by (simp_all add: system_ok_def)
  have "queue_ok s'" by (rule system_ok_quiet [OF q]) (simp_all add: s(2) same_worker_def)
  with k s show ?thesis by (simp add: system_ok_def calls_ok_def stop_ok_def)
next
  case Poll_Command
  with assms poll_keeps show ?thesis by (auto split: thread_pc.splits nat.splits)
next
  case (Loop_Turn t)
  with assms turn_keeps show ?thesis by (auto split: thread_pc.splits nat.splits)
next
  case (Teardown expired)
  with assms teardown_keeps show ?thesis by (auto split: thread_pc.splits)
next
  case Start_Gives_Up
  with assms shutdown_keeps [of s True s'] show ?thesis by (simp split: if_splits)
next
  case Call_Shutdown
  with assms shutdown_keeps [of s False s'] show ?thesis by (simp split: if_splits)
next
  case (Call_Notify c u v)
  with assms notify_keeps [of s c u v] show ?thesis by (simp split: if_splits)
qed

lemma system_ok_run:
  assumes "system_run env as (system_start w0) = Some s" and "world_ok w0"
  shows "system_ok s"
  by (rule system_run_keeps [where P = system_ok, OF assms(1) system_ok_start [OF assms(2)] system_ok_step])




section \<open>Stop gets through\<close>

text \<open>
  The worker's steps that are left once Stop is in the channel: the commands ahead of it and itself, a
  turn of the loop if the polls of this iteration do not reach it, and the teardown.
\<close>

definition turns_left :: "('t, 'b, 'w) system \<Rightarrow> nat" where
  "turns_left s =
     (case thread_pc s of
        Polling n \<Rightarrow>
          length (queued (command_queue s)) + (if length (queued (command_queue s)) \<le> n then 1 else 2)
      | Leaving_Run r \<Rightarrow> 1
      | Over st \<Rightarrow> 0)"

lemma Stop_queued:
  assumes "system_ok s" and "stop_sent (client_pc s)" and "thread_pc s = Polling n"
  shows "queued (command_queue s) \<noteq> []" and "length (queued (command_queue s)) \<le> 128"
    and "senders (command_queue s) = 1"
proof -
  from assms have "queue_ok s" and "stop_ok s" by (simp_all add: system_ok_def)
  with assms(2,3) have *: "accepted s = taken s @ queued (command_queue s)" "Stop \<notin> set (taken s)"
    "accepted s \<noteq> []" "last (accepted s) = Stop" "length (queued (command_queue s)) \<le> 128"
    "senders (command_queue s) = 1"
    by (simp_all add: queue_ok_def stop_ok_def Let_def)
  then show "queued (command_queue s) \<noteq> []" by (metis append_Nil2 last_in_set)
  from * show "length (queued (command_queue s)) \<le> 128" and "senders (command_queue s) = 1" by simp_all
qed

lemma turns_left_bound:
  assumes "system_ok s" and "stop_sent (client_pc s)"
  shows "turns_left s \<le> 130"
  using Stop_queued [OF assms] by (cases "thread_pc s") (auto simp: turns_left_def)

lemma turns_left_leave [simp]: "turns_left (leave_run t r s) = 1"
  by (simp add: turns_left_def)

lemma turns_left_worker:
  assumes "system_ok s" and "stop_sent (client_pc s)" and "system_step env a s = Some s'"
    and "worker_turn a"
  shows "turns_left s' < turns_left s \<and> client_pc s' = client_pc s"
  using assms(3)
proof (cases rule: system_step_cases)
  case (poll n)
  note q = Stop_queued [OF assms(1,2) poll(1)]
  show ?thesis
  proof (cases rule: poll_step_cases [of s env n])
    case (command c ch rl w)
    with poll(1) try_recv_cases(1) [OF command(1) refl] show ?thesis
      by (simp add: poll(2) command(3) turns_left_def)
  next
    case (leave c ch rl w r)
    with poll(1) q(1) show ?thesis
      by (cases "queued (command_queue s)") (simp_all add: poll(2) leave(3) turns_left_def [of s])
  next
    case (empty ch)
    with try_recv_cases(2) [OF empty(1) refl] q(1) show ?thesis by simp
  next
    case (gone ch)
    with try_recv_cases(3) [OF gone(1) refl] q(3) show ?thesis by simp
  qed
next
  case (turn t)
  note q = Stop_queued [OF assms(1,2) turn(1)]
  obtain rl w f where "loop_turn env t (loop_local s) (thread_world s) = (rl, w, f)"
    by (cases "loop_turn env t (loop_local s) (thread_world s)") auto
  with turn q show ?thesis
    by (cases f; cases "queued (command_queue s)")
      (auto simp: turn_step_def turns_left_def)
next
  case (teardown r expired)
  then show ?thesis by (auto simp: teardown_step_def turns_left_def split: worker_status.splits)
next
  case client
  with assms(4) show ?thesis by simp
qed

lemma turns_left_client:
  assumes "stop_sent (client_pc s)" and "system_step env a s = Some s'" and "\<not> worker_turn a"
  shows "turns_left s' = turns_left s \<and> stop_sent (client_pc s')"
  using assms
  by (cases a) (auto simp: turns_left_def join_step_def split: if_splits client_pc.splits thread_pc.splits)

lemma turns_left_run:
  "\<lbrakk> system_ok s; stop_sent (client_pc s); system_run env bs s = Some s' \<rbrakk>
     \<Longrightarrow> length (filter worker_turn bs) + turns_left s' \<le> turns_left s"
proof (induction bs arbitrary: s)
  case (Cons a bs)
  then obtain x where x: "system_step env a s = Some x" "system_run env bs x = Some s'"
    by (auto simp: bind_eq_Some_conv)
  have ok: "system_ok x" by (rule system_ok_step [OF x(1) Cons.prems(1)])
  show ?case
  proof (cases "worker_turn a")
    case True
    from turns_left_worker [OF Cons.prems(1,2) x(1) True] Cons.IH [OF ok _ x(2)] Cons.prems(2) True
    show ?thesis by simp
  next
    case False
    from turns_left_client [OF Cons.prems(2) x(1) False] Cons.IH [OF ok _ x(2)] False
    show ?thesis by simp
  qed
qed simp

text \<open>The worker always has a step to make until it is over.\<close>

lemma deadline_ends_teardown: "\<exists>s'. teardown_step env [True] r s = Some s'"
  by (auto simp: teardown_step_def worker_stop_def stop_controller_def worker_finish_def Let_def
      dest: stop_loop_ends split: prod.splits flow.splits outcome.splits option.splits worker_status.split)

lemma worker_can_step:
  assumes "\<And>st. thread_pc s \<noteq> Over st"
  shows "\<exists>a s'. system_step env a s = Some s' \<and> worker_turn a"
proof (cases "thread_pc s")
  case (Polling n)
  then show ?thesis
    by (cases n) (force intro: exI [of _ "Loop_Turn 0"], force intro: exI [of _ Poll_Command])
next
  case (Leaving_Run r)
  with deadline_ends_teardown [of env r s] show ?thesis
    by (intro exI [of _ "Teardown [True]"]) auto
next
  case (Over st)
  with assms [of st] show ?thesis by simp
qed

lemma joining_can_return:
  "\<lbrakk> system_ok s; client_pc s = Joining_Worker b \<rbrakk>
     \<Longrightarrow> \<exists>bs s' r. system_run env bs s = Some s' \<and> client_pc s' = Closed r \<and> length bs \<le> turns_left s + 1"
proof (induction "turns_left s" arbitrary: s rule: less_induct)
  case less
  show ?case
  proof (cases "\<exists>st. thread_pc s = Over st")
    case True
    then obtain st where "thread_pc s = Over st" by blast
    with less.prems show ?thesis by (intro exI [of _ "[Join]"]) (simp add: join_step_def)
  next
    case False
    then obtain a x where x: "system_step env a s = Some x" "worker_turn a" using worker_can_step by blast
    have t: "turns_left x < turns_left s \<and> client_pc x = client_pc s"
      by (rule turns_left_worker [OF less.prems(1) _ x]) (simp add: less.prems(2))
    with less.hyps [of x] system_ok_step [OF x(1) less.prems(1)] less.prems(2)
    obtain bs s' r where "system_run env bs x = Some s'" "client_pc s' = Closed r" "length bs \<le> turns_left x + 1"
      by auto
    with x(1) t show ?thesis by (intro exI [of _ "a # bs"]) simp
  qed
qed

section \<open>A concrete session\<close>

text \<open>A controller that is off as soon as it is asked.\<close>

definition obedient_env :: "(unit, unit) env" where
  "obedient_env = quiet_env\<lparr>env_btstack := quiet_stack\<lparr>bt_is_off := \<lambda>_. True\<rparr>\<rparr>"

lemma obedient_call [simp]: "call_c obedient_env c w = (w, 0)" "rs_is_off obedient_env w"
  by (simp_all add: call_c_def rs_is_off_def obedient_env_def quiet_env_def quiet_stack_def)

lemma obedient_iteration:
  "transport w = Some () \<Longrightarrow> failure w = None \<Longrightarrow> receive_and_poll obedient_env w = (w, Next)"
  by (simp add: receive_and_poll_def receive_packet_def poll_stack_def rs_poll_def obedient_env_def
      quiet_env_def quiet_transport_def call_c_def quiet_stack_def)

definition ready_world :: "(unit, unit, unit) world" where
  "ready_world = world_with (subscribed_state []) [(2, 0, 0)]"

text \<open>Start, one notify, shutdown.\<close>

definition up_and_notified :: "turn list" where
  "up_and_notified = [Poll_Command, Loop_Turn 0, Start_Returns, Call_Notify peer_64 counter_uuid [1],
     Poll_Command, Take_Answer]"

definition shut_down :: "turn list" where
  "shut_down = [Call_Shutdown, Poll_Command, Teardown [], Join]"

lemmas session_steps = up_and_notified_def shut_down_def ready_world_def system_start_def sync_channel_def
  poll_step_def try_recv_def turn_step_def loop_turn_def obedient_iteration call_notify_def try_send_def
  has_room_def take_answer_def Let_def run_start_def drain_events_Cons drain_events_Nil handle_event_def
  check_startup_def process_command_def enqueue_notification_def subscribed_state_def peer_64_def flag_def
  with_notify_def characteristic_new_def saturating_sub_u16_def push_pending_def push_back_def reply_def
  call_shutdown_def send_blocking_def send_ignored_def leave_run_def teardown_step_def worker_stop_def
  stop_controller_def stop_loop.simps rs_stop_def catch_unwind_def result_and_def worker_finish_def
  send_error_def rs_deinit_def call_all_def join_step_def join_worker_def drop_receiver_def
lemma obedient_request_send [simp]: "server (rs_request_send obedient_env h w) = server w"
  by (simp add: rs_request_send_def split: option.split)

lemma ready_world_ok: "world_ok ready_world"
  by (simp add: ready_world_def)

lemma notified_session:
  "\<exists>s. system_run obedient_env up_and_notified (system_start ready_world) = Some s
     \<and> client_pc s = Ready \<and> call_results s = [(0, Inr ())]"
  by (simp add: session_steps)

section \<open>Properties\<close>

text \<open>
  C5. Every interleaving of the application's calls with the worker's steps is a run of the worker on
  the inputs it met: the thread is where \<open>worker\<close> is after the iterations that are over and
  the polls of the current one, its result is a result of \<open>worker\<close>, and the application cannot
  influence it but through the commands it polled. What holds of \<open>worker\<close> on all inputs holds of the
  two threads together.
\<close>

theorem interleaving_is_a_run:
  assumes "worker_init env name services (new_thread t p) = Returned w1"
    and "rs_start env adv w1 = (w0, 0)"
    and "system_run env as (system_start w0) = Some s"
  shows "case thread_pc s of
      Polling n \<Rightarrow>
        \<exists>rl w. worker env name services adv (past_inputs s) expired (new_thread t p) = Running rl w
          \<and> drain_commands env 128 (current_polls s) rl w = (loop_local s, thread_world s, Next)
    | Leaving_Run r \<Rightarrow>
        power_on_and_run env adv (past_inputs s) w1 = (loop_local s, thread_world s, Exit r)
    | Over st \<Rightarrow> \<exists>expired. worker env name services adv (past_inputs s) expired (new_thread t p) = st"
proof -
  have p: "power_on_and_run env adv (past_inputs s) w1 = run env (past_inputs s) run_start w0"
    using assms(2) by (simp add: power_on_and_run_def)
  have f: "follows_run env w0 s" by (rule follows_system_run [OF assms(3)])
  show ?thesis
  proof (cases "thread_pc s")
    case (Polling n)
    with f obtain rl w where "run env (past_inputs s) run_start w0 = (rl, w, Next)"
      "drain_commands env 128 (current_polls s) rl w = (loop_local s, thread_world s, Next)"
      by (auto simp: follows_run_def)
    with Polling p assms(1) show ?thesis by (simp add: worker_def)
  next
    case (Leaving_Run r)
    with f p show ?thesis by (simp add: follows_run_def)
  next
    case (Over st)
    with f obtain r w expired where "run env (past_inputs s) run_start w0 = (loop_local s, w, Exit r)"
      "worker_stop env expired (loop_local s) (catch_unwind (Inl Runtime_Panicked) r) w = st"
      by (auto simp: follows_run_def)
    with Over p assms(1) show ?thesis by (auto simp: worker_def intro!: exI [of _ expired])
  qed
qed

theorem interleaving_is_a_run_witness:
  "\<exists>s rl w. system_run quiet_env [Poll_Command, Loop_Turn 0]
       (system_start (fst (rs_start quiet_env [2, 1, 6] (rs_init quiet_env (new_thread () idle_process))))) = Some s
     \<and> worker quiet_env [82] [] [2, 1, 6] (past_inputs s) [] (new_thread () idle_process) = Running rl w"
proof -
  let ?w1 = "rs_init quiet_env (new_thread () idle_process)"
  have init: "worker_init quiet_env [82] [] (new_thread () idle_process) = Returned ?w1"
    by (simp add: worker_init_def rs_gap_name_def call_all_def)
  obtain w0 where start: "rs_start quiet_env [2, 1, 6] ?w1 = (w0, 0)"
    by (simp add: rs_start_def Let_def)
  have w0: "transport w0 = Some ()" "failure w0 = None" "event_queue w0 = []"
    using start by (auto simp: rs_start_def Let_def call_all_def rs_init_def new_thread_def)
  obtain s where s: "system_run quiet_env [Poll_Command, Loop_Turn 0] (system_start w0) = Some s"
    and pc: "thread_pc s = Polling 128"
    using w0 by (simp add: system_start_def sync_channel_def poll_step_def try_recv_def Let_def
        turn_step_def loop_turn_def quiet_iteration drain_events_Nil check_startup_def startup_limit_def)
  from interleaving_is_a_run [OF init start s, of "[]"] pc s start show ?thesis by auto
qed

text \<open>
  C9. Commands and answers: what the channel accepted is what the loop received, in that order, then
  what waits in it; the loop answers each notify it received once, in the order they were accepted,
  and no two calls share an answer channel; and each call of \<^verbatim>\<open>notify\<close> that ended was refused, timed
  out, or returned what the loop decided on that very command.
\<close>

theorem answers_in_order:
  assumes "system_run env as (system_start w0) = Some s" and "world_ok w0"
  shows "(\<exists>rest. accepted s = taken s @ rest \<and> (is_polling (thread_pc s) \<longrightarrow> rest = queued (command_queue s)))
    \<and> map fst (replies (loop_local s)) = answer_ids (taken s)
    \<and> distinct (answer_ids (accepted s)) \<and> distinct (map fst (call_results s))
    \<and> (\<forall>(i, r) \<in> set (call_results s). r \<in> no_answer \<or> (i, r) \<in> set (replies (loop_local s)))"
proof -
  have ok: "queue_ok s" "calls_ok s" using system_ok_run [OF assms] by (simp_all add: system_ok_def)
  then have "\<exists>rest. accepted s = taken s @ rest \<and> (is_polling (thread_pc s) \<longrightarrow> rest = queued (command_queue s))"
    by (auto simp: queue_ok_def Let_def prefix_def split: if_splits)
  moreover from ok have "map fst (replies (loop_local s)) = answer_ids (taken s)"
    by (simp add: queue_ok_def Let_def)
  moreover from ok have "distinct (map fst (call_results s) @ (case client_pc s of Waiting i \<Rightarrow> [i] | _ \<Rightarrow> []))"
    by (simp add: calls_ok_def)
  then have "distinct (map fst (call_results s))" by simp
  moreover from ok have "distinct (answer_ids (accepted s))"
    by (simp add: calls_ok_def strict_sorted_iff)
  ultimately show ?thesis using ok(2) by (auto simp: calls_ok_def)
qed

theorem answers_in_order_witness:
  "\<exists>s. system_run obedient_env up_and_notified (system_start ready_world) = Some s
     \<and> (0, Inr ()) \<in> set (replies (loop_local s)) \<and> answer_ids (taken s) = map fst (replies (loop_local s))"
proof -
  obtain s where s: "system_run obedient_env up_and_notified (system_start ready_world) = Some s"
    "call_results s = [(0, Inr ())]" using notified_session by blast
  from answers_in_order [OF s(1) ready_world_ok] s show ?thesis by (auto simp: no_answer_def)
qed

text \<open>
  A time-out is no refusal: a call that gave up leaves its command in the channel, and the loop may
  still queue the notification.
\<close>

lemma timed_out_notification_is_queued:
  "\<exists>s srv. system_run obedient_env
       [Poll_Command, Loop_Turn 0, Start_Returns, Call_Notify peer_64 counter_uuid [1], Give_Up, Poll_Command]
       (system_start ready_world) = Some s
     \<and> call_results s = [(0, Inl Enqueue_Timed_Out)]
     \<and> server (thread_world s) = Some srv \<and> pending srv = [(peer_64, 3, [1])]"
  by (simp add: session_steps give_up_def)



text \<open>
  C7. Stop gets through: once \<^verbatim>\<open>shutdown\<close> has sent it, the worker makes at most 130 more steps,
  however the threads are scheduled and whatever the stack does, and the join can return within 131
  steps from any point.
\<close>

theorem shutdown_returns:
  assumes "system_run env as (system_start w0) = Some s" and "world_ok w0"
    and "client_pc s = Joining_Worker b"
  shows "(system_run env bs s = Some s1 \<longrightarrow> length (filter worker_turn bs) \<le> 130)
    \<and> (\<exists>bs s' r. system_run env bs s = Some s' \<and> client_pc s' = Closed r \<and> length bs \<le> 131)"
proof -
  have ok: "system_ok s" by (rule system_ok_run [OF assms(1,2)])
  have sent: "stop_sent (client_pc s)" by (simp add: assms(3))
  note bound = turns_left_bound [OF ok sent]
  have "system_run env bs s = Some s1 \<Longrightarrow> length (filter worker_turn bs) \<le> 130"
    using turns_left_run [OF ok sent, of env bs s1] bound by simp
  moreover obtain cs s' r where "system_run env cs s = Some s'" "client_pc s' = Closed r"
    "length cs \<le> turns_left s + 1"
    using joining_can_return [OF ok assms(3)] by blast
  ultimately show ?thesis using bound by (intro conjI impI exI [of _ cs]) auto
qed

theorem shutdown_returns_witness:
  "\<exists>bs s s' r. system_run obedient_env (up_and_notified @ [Call_Shutdown]) (system_start ready_world) = Some s
     \<and> system_run obedient_env bs s = Some s' \<and> client_pc s' = Closed r \<and> length bs \<le> 131"
proof -
  obtain s where s: "system_run obedient_env (up_and_notified @ [Call_Shutdown]) (system_start ready_world) = Some s"
    "client_pc s = Joining_Worker False"
    by (simp add: session_steps)
  from shutdown_returns [OF s(1) ready_world_ok s(2)] s(1) show ?thesis by blast
qed

text \<open>
  A full channel does not keep \<^verbatim>\<open>shutdown\<close> out: a free client can send Stop at once, or after at most
  two steps of the worker.
\<close>

lemma poll_makes_room:
  assumes "system_ok s" and "thread_pc s = Polling (Suc n)" and "client_pc s = Ready"
    and "call_shutdown False s = None"
  shows "client_pc (poll_step env n s) = Ready \<and> call_shutdown False (poll_step env n s) \<noteq> None"
proof -
  from assms(1,2) have q: "capacity (command_queue s) = Some 128" "length (queued (command_queue s)) \<le> 128"
    "receiver_alive (command_queue s)" by (simp_all add: system_ok_def queue_ok_def Let_def)
  with assms(4) have full: "length (queued (command_queue s)) = 128"
    by (auto simp: call_shutdown_def send_blocking_def has_room_def split: if_splits)
  show ?thesis
  proof (cases rule: poll_step_cases [of s env n])
    case (command c ch rl w)
    with try_recv_cases(1) [OF command(1) refl] q full assms(3) show ?thesis
      by (simp add: command(3) call_shutdown_def send_blocking_def has_room_def)
  next
    case (leave c ch rl w r)
    with assms(3) show ?thesis
      by (simp add: leave(3) call_shutdown_def send_blocking_def drop_receiver_def)
  next
    case (empty ch)
    with try_recv_cases(2) [OF empty(1) refl] full show ?thesis by simp
  next
    case (gone ch)
    with assms(3) show ?thesis
      by (simp add: gone(2) call_shutdown_def send_blocking_def drop_receiver_def)
  qed
qed

lemma shutdown_can_be_sent:
  assumes "system_ok s" and "client_pc s = Ready"
  shows "\<exists>bs s'. system_run env (bs @ [Call_Shutdown]) s = Some s' \<and> length bs \<le> 2"
proof -
  have polled: "\<exists>bs s'. system_run env (bs @ [Call_Shutdown]) s = Some s' \<and> length bs \<le> 1"
    if s: "system_ok s" "client_pc s = Ready" "thread_pc s \<noteq> Polling 0" for s :: "('a, 'b, 'c) system"
  proof (cases "call_shutdown False s")
    case (Some s')
    with s show ?thesis by (intro exI [of _ "[]"]) simp
  next
    case None
    then have "receiver_alive (command_queue s)" by (auto simp: call_shutdown_def send_blocking_def split: if_splits)
    with s obtain n where n: "thread_pc s = Polling (Suc n)"
      by (cases "thread_pc s"; cases "command_queue s")
        (auto simp: system_ok_def queue_ok_def Let_def gr0_conv_Suc)
    with poll_makes_room [OF s(1) n s(2) None, of env] show ?thesis
      by (intro exI [of _ "[Poll_Command]"]) auto
  qed
  show ?thesis
  proof (cases "thread_pc s = Polling 0")
    case True
    have "client_pc (turn_step env 0 s) = Ready" "thread_pc (turn_step env 0 s) \<noteq> Polling 0"
      using assms(2) by (auto simp: turn_step_def split: prod.split flow.split)
    with polled [of "turn_step env 0 s"] turn_keeps [OF assms(1) True] obtain bs s' where
      "system_run env (bs @ [Call_Shutdown]) (turn_step env 0 s) = Some s'" "length bs \<le> 1" by blast
    with True show ?thesis by (intro exI [of _ "Loop_Turn 0 # bs"]) simp
  next
    case False
    with polled [OF assms] show ?thesis by (meson le_SucI numeral_2_eq_2 order_trans one_le_numeral)
  qed
qed

text \<open>
  C6. The application can always stop: from every state the two threads can reach in which the client is
  free, some schedule of at most 134 steps takes it through \<^verbatim>\<open>shutdown\<close>, also if the command channel
  is full, the transport fails or panics, or the controller never answers.
\<close>

theorem application_can_stop:
  assumes "system_run env as (system_start w0) = Some s" and "world_ok w0" and "client_pc s = Ready"
  shows "\<exists>bs s' r. system_run env bs s = Some s' \<and> client_pc s' = Closed r \<and> length bs \<le> 134"
proof -
  have ok: "system_ok s" by (rule system_ok_run [OF assms(1,2)])
  obtain bs s1 where 1: "system_run env (bs @ [Call_Shutdown]) s = Some s1" "length bs \<le> 2"
    using shutdown_can_be_sent [OF ok assms(3)] by blast
  have run: "system_run env (as @ bs @ [Call_Shutdown]) (system_start w0) = Some s1"
    using assms(1) 1(1) by (simp add: system_run_append)
  from 1(1) have pc: "client_pc s1 = Joining_Worker False"
    by (auto simp: system_run_append bind_eq_Some_conv call_shutdown_def split: if_splits)
  have ok1: "system_ok s1" by (rule system_ok_run [OF run assms(2)])
  obtain cs s' r where 2: "system_run env cs s1 = Some s'" "client_pc s' = Closed r"
    "length cs \<le> turns_left s1 + 1"
    using joining_can_return [OF ok1 pc] by blast
  have "turns_left s1 \<le> 130" by (rule turns_left_bound [OF ok1]) (simp add: pc)
  with 1 2 have "system_run env ((bs @ [Call_Shutdown]) @ cs) s = Some s'"
    "length ((bs @ [Call_Shutdown]) @ cs) \<le> 134"
    by (simp_all only: system_run_append [of env "bs @ [Call_Shutdown]" cs] bind.bind_lunit length_append
        list.size)
  with 2(2) show ?thesis by blast
qed

theorem application_can_stop_witness:
  "\<exists>s bs s' r. system_run obedient_env up_and_notified (system_start ready_world) = Some s
     \<and> system_run obedient_env bs s = Some s' \<and> client_pc s' = Closed r \<and> length bs \<le> 134"
proof -
  obtain s where s: "system_run obedient_env up_and_notified (system_start ready_world) = Some s"
    "client_pc s = Ready" using notified_session by blast
  from application_can_stop [OF s(1) ready_world_ok s(2)] s(1) show ?thesis by blast
qed

end
