(* ===== verification/Event_Delivery.thy ===== *)
theory Event_Delivery
  imports Call_Properties
begin

text \<open>
  The way back: the events of the stack thread, received by the application while its calls and the
  steps of the worker interleave (\<^verbatim>\<open>Runtime::recv_timeout\<close> in btstack-core/src/runtime.rs). The event
  channel is unbounded and its receiver lives as long as the \<^verbatim>\<open>Runtime\<close>, so no send of the worker
  depends on what was received: the channel of the model keeps every event that was sent, and what
  the application has not received yet is the rest of it.
\<close>

section \<open>The application with its receiver\<close>

text \<open>
  \<^verbatim>\<open>start\<close> hands the \<^verbatim>\<open>Runtime\<close> out (\<open>holds_runtime\<close>) when the worker has signalled; \<open>got\<close> are
  the events received since, and \<open>got_end\<close> records a \<^verbatim>\<open>RecvTimeoutError::Disconnected\<close>.
\<close>

record ('t, 'b, 'w) application =
  threads :: "('t, 'b, 'w) system"
  holds_runtime :: bool
  got :: "server_event list"
  got_end :: bool

definition application_start :: "('t, 'b, 'w) world \<Rightarrow> ('t, 'b, 'w) application" where
  "application_start w =
     \<lparr>threads = system_start w, holds_runtime = False, got = [], got_end = False\<rparr>"

text \<open>All events sent so far: in the state of the thread, or in what a finished thread left behind.\<close>

definition events_sent :: "('t, 'b, 'w) system \<Rightarrow> server_event channel option" where
  "events_sent s =
     (case thread_pc s of
        Over (Finished e _) \<Rightarrow> Some (event_channel e)
      | Over _ \<Rightarrow> None
      | _ \<Rightarrow> map_option events (server (thread_world s)))"

text \<open>
  A receive by a client that is in no other call, also after \<^verbatim>\<open>shutdown\<close>. \<open>Nothing_Yet\<close> is
  a receive whose time ran out.
\<close>

definition may_receive :: "('t, 'b, 'w) application \<Rightarrow> bool" where
  "may_receive a \<longleftrightarrow> holds_runtime a \<and> (case client_pc (threads a) of Ready \<Rightarrow> True | Closed _ \<Rightarrow> True | _ \<Rightarrow> False)"

definition receive_event :: "('t, 'b, 'w) application \<Rightarrow> ('t, 'b, 'w) application option" where
  "receive_event a =
     (case events_sent (threads a) of
        None \<Rightarrow> None
      | Some ch \<Rightarrow>
          Some (case fst (try_recv (ch\<lparr>queued := drop (length (got a)) (queued ch)\<rparr>)) of
              Received e \<Rightarrow> a\<lparr>got := got a @ [e]\<rparr>
            | Nothing_Yet \<Rightarrow> a
            | Senders_Gone \<Rightarrow> a\<lparr>got_end := True\<rparr>))"

datatype application_turn = Thread_Turn turn | Receive_Event

fun application_step ::
  "('t, 'b) env \<Rightarrow> application_turn \<Rightarrow> ('t, 'b, 'w) application \<Rightarrow> ('t, 'b, 'w) application option" where
  "application_step env (Thread_Turn t) a =
     map_option (\<lambda>s. a\<lparr>threads := s, holds_runtime := holds_runtime a \<or> t = Start_Returns\<rparr>)
       (system_step env t (threads a))"
| "application_step env Receive_Event a = (if may_receive a then receive_event a else None)"

fun application_run ::
  "('t, 'b) env \<Rightarrow> application_turn list \<Rightarrow> ('t, 'b, 'w) application \<Rightarrow> ('t, 'b, 'w) application option" where
  "application_run env [] a = Some a"
| "application_run env (t # ts) a = Option.bind (application_step env t a) (application_run env ts)"

text \<open>Without its receives, a run is a run of the two threads.\<close>

fun thread_turns :: "application_turn list \<Rightarrow> turn list" where
  "thread_turns [] = []"
| "thread_turns (Thread_Turn t # ts) = t # thread_turns ts"
| "thread_turns (Receive_Event # ts) = thread_turns ts"

section \<open>The events that were sent stay sent\<close>

text \<open>
  \<open>xs\<close> was sent first, in this order; and a thread that is over closed the channel, behind the error it
  ended with.
\<close>

definition sent_first :: "server_event list \<Rightarrow> ('t, 'b, 'w) system \<Rightarrow> bool" where
  "sent_first xs s \<longleftrightarrow>
     (case thread_pc s of
        Over st \<Rightarrow>
          (\<exists>e w. st = Finished e w \<and> clean_end e w \<and> prefix xs (queued (event_channel e)))
      | _ \<Rightarrow> events_open xs [] (thread_world s))"

lemma sent_first_channel:
  assumes "sent_first xs s"
  obtains ch rest where "events_sent s = Some ch" "queued ch = xs @ rest"
    "senders ch = 0 \<longleftrightarrow> (\<exists>st. thread_pc s = Over st)"
  using assms that
  by (cases "thread_pc s")
    (auto simp: sent_first_def events_sent_def events_open_def clean_end_def prefix_def)

lemma sent_first_leave [simp]: "sent_first xs (leave_run t r s) = events_open xs [] (thread_world s)"
  by (simp add: sent_first_def leave_run_def)

lemma sent_first_poll:
  assumes "sent_first xs s" and "thread_pc s = Polling (Suc n)"
  shows "sent_first xs (poll_step env n s)"
proof -
  have e: "events_open xs [] (thread_world s)" using assms by (simp add: sent_first_def)
  note keeps = open_inv.process_command_keeps [OF e]
  show ?thesis
    by (cases rule: poll_step_cases [of s env n])
      (use e keeps in \<open>auto simp: sent_first_def\<close>)
qed

lemma sent_first_turn:
  assumes "sent_first xs s" and "thread_pc s = Polling 0"
  shows "sent_first xs (turn_step env t s)"
proof -
  have e: "events_open xs [] (thread_world s)" using assms by (simp add: sent_first_def)
  obtain rl w f where l: "loop_turn env t (loop_local s) (thread_world s) = (rl, w, f)"
    by (cases "loop_turn env t (loop_local s) (thread_world s)") auto
  with e have "events_open xs [] w"
    by (auto simp: loop_turn_def dest: open_inv.receive_and_poll_keeps open_inv.drain_events_keeps
        split: prod.splits flow.splits)
  with l show ?thesis by (cases f) (simp_all add: turn_step_def sent_first_def leave_run_def)
qed

lemma sent_first_teardown:
  assumes "sent_first xs s" and "thread_pc s = Leaving_Run r" and "teardown_step env expired r s = Some s'"
  shows "sent_first xs s'"
proof -
  have e: "events_open xs [] (thread_world s)" using assms by (simp add: sent_first_def)
  from worker_stop_cases [OF e, of env expired "loop_local s" "catch_unwind (Inl Runtime_Panicked) r"] assms(3)
  show ?thesis by (auto simp: teardown_step_def sent_first_def)
qed

lemma sent_first_step:
  assumes "system_step env t s = Some s'" and "sent_first xs s"
  shows "sent_first xs s'"
  using assms(1)
proof (cases rule: system_step_cases)
  case client
  with assms(2) show ?thesis unfolding same_worker_def sent_first_def by (elim conjE) (simp only:)
qed (use assms(2) in \<open>blast intro: sent_first_poll sent_first_turn sent_first_teardown\<close>)+

section \<open>The invariant of the receiver\<close>

definition delivery_ok :: "('t, 'b, 'w) application \<Rightarrow> bool" where
  "delivery_ok a \<longleftrightarrow>
     sent_first (got a) (threads a)
     \<and> (got_end a \<longrightarrow> (\<exists>e w. thread_pc (threads a) = Over (Finished e w) \<and> got a = queued (event_channel e)))"

text \<open>A receive takes the next event, times out, or finds the channel closed and read to its end.\<close>

lemma receive_event_cases:
  assumes "sent_first (got a) (threads a)"
  obtains (event) e rest ch where "events_sent (threads a) = Some ch" "queued ch = got a @ e # rest"
      "receive_event a = Some (a\<lparr>got := got a @ [e]\<rparr>)"
  | (timeout) "receive_event a = Some a" "\<And>st. thread_pc (threads a) \<noteq> Over st"
  | (closed) ch st where "events_sent (threads a) = Some ch" "queued ch = got a"
      "thread_pc (threads a) = Over st" "receive_event a = Some (a\<lparr>got_end := True\<rparr>)"
proof -
  obtain ch rest where ch: "events_sent (threads a) = Some ch" "queued ch = got a @ rest"
    "senders ch = 0 \<longleftrightarrow> (\<exists>st. thread_pc (threads a) = Over st)"
    using sent_first_channel [OF assms] .
  show thesis
  proof (cases rest)
    case (Cons e es)
    with ch event [of ch e es] show thesis by (simp add: receive_event_def try_recv_def)
  next
    case Nil
    with ch timeout closed [of ch] show thesis
      by (cases "senders ch = 0") (auto simp: receive_event_def try_recv_def)
  qed
qed

lemma sent_first_next:
  assumes "sent_first xs s" and "events_sent s = Some ch" and "queued ch = xs @ e # rest"
  shows "sent_first (xs @ [e]) s"
  using assms
  by (cases "thread_pc s") (auto simp: sent_first_def events_sent_def events_open_def)

lemma delivery_ok_receive:
  assumes "delivery_ok a" and "receive_event a = Some a'"
  shows "delivery_ok a'"
proof -
  from assms(1) have s: "sent_first (got a) (threads a)" by (simp add: delivery_ok_def)
  from s show ?thesis
  proof (cases rule: receive_event_cases)
    case (event e rest ch)
    with assms sent_first_next [OF s event(1,2)] show ?thesis
      by (auto simp: delivery_ok_def events_sent_def)
  next
    case timeout
    with assms show ?thesis by simp
  next
    case (closed ch st)
    with s assms(2) show ?thesis by (auto simp: delivery_ok_def sent_first_def events_sent_def)
  qed
qed

lemma over_stays:
  "\<lbrakk> system_step env t s = Some s'; thread_pc s = Over st \<rbrakk> \<Longrightarrow> thread_pc s' = Over st"
  by (erule system_step_cases) (simp_all add: same_worker_def)

lemma delivery_ok_step:
  assumes "application_step env t a = Some a'" and "delivery_ok a"
  shows "delivery_ok a'"
proof (cases t)
  case (Thread_Turn u)
  with assms sent_first_step [of env u "threads a"] over_stays [of env u "threads a"] show ?thesis
    by (fastforce simp: delivery_ok_def)
next
  case Receive_Event
  with assms delivery_ok_receive show ?thesis by (auto split: if_splits)
qed

lemma delivery_ok_run:
  "\<lbrakk> application_run env ts a = Some a'; delivery_ok a \<rbrakk> \<Longrightarrow> delivery_ok a'"
  by (induction ts arbitrary: a) (auto simp: bind_eq_Some_conv dest: delivery_ok_step)

lemma delivery_ok_start: "events_open [] [] w \<Longrightarrow> delivery_ok (application_start w)"
  by (simp add: delivery_ok_def application_start_def system_start_def sent_first_def)

lemma application_run_threads:
  "application_run env ts a = Some a' \<Longrightarrow> system_run env (thread_turns ts) (threads a) = Some (threads a')"
proof (induction ts arbitrary: a)
  case (Cons t ts)
  then obtain x where x: "application_step env t a = Some x" "application_run env ts x = Some a'"
    by (auto simp: bind_eq_Some_conv)
  from x(1) have "t = Receive_Event \<Longrightarrow> threads x = threads a"
    by (auto simp: receive_event_def split: if_splits option.splits received.splits)
  with x(1) Cons.IH [OF x(2)] show ?case by (cases t) auto
qed simp

section \<open>Properties\<close>

text \<open>Every started stack thread has an open event channel.\<close>

lemma started_thread_events:
  assumes "worker_init env name services (new_thread t p) = Returned w1"
    and "power_on_and_run env adv [] w1 = (rl, w, f)"
  shows "events_open [] [] w"
  using open_inv.power_on_and_run_keeps [OF open_inv.worker_init_keeps [OF new_thread_events assms(1)]
      assms(2)] .

text \<open>Once the thread is over, the client can receive what is left, and then the end.\<close>

lemma rest_can_be_received:
  assumes "sent_first (got a) (threads a)" and "thread_pc (threads a) = Over st" and "may_receive a"
    and "events_sent (threads a) = Some ch" and "queued ch = got a @ rest"
  shows "\<exists>a'. application_run env (replicate (length rest + 1) Receive_Event) a = Some a'
    \<and> got a' = queued ch \<and> got_end a'"
  using assms
proof (induction rest arbitrary: a)
  case Nil
  from Nil.prems(1) show ?case
    by (cases rule: receive_event_cases) (use Nil.prems in auto)
next
  case (Cons e es)
  from Cons.prems(1) show ?case
  proof (cases rule: receive_event_cases)
    case (event e' rest' ch')
    let ?a = "a\<lparr>got := got a @ [e]\<rparr>"
    from event Cons.prems have r: "receive_event a = Some ?a" by auto
    have "\<exists>a'. application_run env (replicate (length es + 1) Receive_Event) ?a = Some a'
        \<and> got a' = queued ch \<and> got_end a'"
      using Cons.prems sent_first_next [OF Cons.prems(1,4,5)]
      by (intro Cons.IH) (simp_all add: may_receive_def)
    with r Cons.prems(3) show ?thesis by simp
  qed (use Cons.prems in auto)
qed

text \<open>
  C10. The events reach the application: however its calls, its receives and the steps of the worker
  interleave, what it received is the beginning of what the worker sent, in order, none lost or
  repeated; it learns of the end only when the worker is over and everything was received, and then an
  error that ended the worker is among the events; and once the worker is over, one receive for each
  event that is left and one more bring it there.
\<close>

theorem events_in_order:
  assumes "application_run env ts (application_start w0) = Some a" and "events_open [] [] w0"
  shows "\<exists>ch rest. events_sent (threads a) = Some ch \<and> queued ch = got a @ rest
    \<and> (got_end a \<longrightarrow> rest = [] \<and> (\<exists>e w. thread_pc (threads a) = Over (Finished e w)
         \<and> (\<forall>err. result e = Inl err \<longrightarrow> Server_Error err \<in> set (got a))))
    \<and> ((\<exists>st. thread_pc (threads a) = Over st) \<and> may_receive a \<longrightarrow>
         (\<exists>a'. application_run env (replicate (length rest + 1) Receive_Event) a = Some a'
            \<and> got a' = queued ch \<and> got_end a'))"
proof -
  have ok: "delivery_ok a" by (rule delivery_ok_run [OF assms(1) delivery_ok_start [OF assms(2)]])
  then have s: "sent_first (got a) (threads a)" by (simp add: delivery_ok_def)
  then obtain ch rest where ch: "events_sent (threads a) = Some ch" "queued ch = got a @ rest"
    by (rule sent_first_channel)
  have "rest = [] \<and> (\<exists>e w. thread_pc (threads a) = Over (Finished e w)
      \<and> (\<forall>err. result e = Inl err \<longrightarrow> Server_Error err \<in> set (got a)))" if "got_end a"
    using that ok s ch by (auto simp: delivery_ok_def sent_first_def events_sent_def clean_end_def)
  moreover have "\<exists>a'. application_run env (replicate (length rest + 1) Receive_Event) a = Some a'
      \<and> got a' = queued ch \<and> got_end a'"
    if "(\<exists>st. thread_pc (threads a) = Over st) \<and> may_receive a"
    using rest_can_be_received [OF s _ _ ch] that by blast
  ultimately show ?thesis using ch by blast
qed

text \<open>
  A peer disconnects, then a command fails and ends the loop: the application receives the
  disconnection, the error and the end.
\<close>

definition failing_world :: "(unit, unit, unit) world" where
  "failing_world =
     world_with ((subscribed_state [])\<lparr>events := unbounded\<lparr>senders := 2\<rparr>\<rparr>)
       [(2, 0, 0), (4, 64, 0), (6, 1, 12)]"

definition failing_session :: "application_turn list" where
  "failing_session = [Thread_Turn Poll_Command, Thread_Turn (Loop_Turn 0), Thread_Turn Start_Returns,
     Receive_Event, Thread_Turn (Teardown []), Receive_Event, Receive_Event]"

theorem events_in_order_witness:
  "\<exists>a. application_run obedient_env failing_session (application_start failing_world) = Some a
     \<and> got a = [Disconnected peer_64, Server_Error (Command_Failed 1 12)] \<and> got_end a
     \<and> (\<exists>e w. thread_pc (threads a) = Over (Finished e w))"
proof -
  have "events_open [] [] failing_world"
    by (simp add: failing_world_def events_open_def unbounded_def)
  moreover obtain a where a: "application_run obedient_env failing_session (application_start failing_world) = Some a"
    "got a = [Disconnected peer_64, Server_Error (Command_Failed 1 12)]" "got_end a"
    by (simp add: failing_session_def failing_world_def application_start_def session_steps
        connection_event_def handle_disconnected_def report_def may_receive_def receive_event_def
        events_sent_def unbounded_def drop_sender_def update_server_def)
  ultimately show ?thesis using events_in_order [of obedient_env failing_session failing_world a] by blast
qed

end
