(* ===== verification/Native_Server.thy ===== *)
theory Native_Server
  imports Prelude
begin

text \<open>
  examples/gatt-peripheral-android/native/src/lib.rs: the session object the Android application
  holds. \<^verbatim>\<open>new\<close> duplicates the descriptor and starts the worker thread; \<^verbatim>\<open>run\<close> is a future
  that waits for the worker's result, with a guard that stops the session when the future ends or is
  dropped; \<^verbatim>\<open>stop\<close> sets the flag and joins the worker with the mutex held. Threads interleave, so
  the object is a state machine: \<open>native_step\<close> makes one atomic step of one caller or of the worker,
  \<open>reachable\<close> is its reachability. \<^verbatim>\<open>android::serve\<close> returns some result, or panics, at some step.
\<close>

section \<open>The session\<close>

datatype server_error = Failed string

type_synonym serve_result = "server_error + unit"

text \<open>The worker: serving, about to send its result (none after a panic), or over.\<close>

datatype worker_pc = Serving | Leaving "serve_result option" | Exited

text \<open>Why a caller stops the session: \<^verbatim>\<open>stop\<close>, the guard of a future that is ready or dropped, \<^verbatim>\<open>Drop\<close>.\<close>

datatype stop_reason = By_Stop | By_Ready serve_result | By_Cancel | By_Drop

datatype caller_pc =
    Idle
  | Awaiting
  | Refused
  | Storing stop_reason
  | Locking stop_reason
  | Joining stop_reason
  | Finished stop_reason

record session =
  stop_flag :: bool
  join_handle :: bool
  worker_lock :: "nat option"
  completion :: bool
  oneshot :: "serve_result option option"
  worker_at :: worker_pc
  descriptor_open :: bool
  callers :: "caller_pc list"

section \<open>new\<close>

text \<open>
  The result of each system call is a parameter; \<open>n\<close> is the number of callers the session will have.
  The second component tells whether the duplicate is still open.
\<close>

definition native_new ::
  "bool \<Rightarrow> string + unit \<Rightarrow> int \<Rightarrow> string + int \<Rightarrow> string + unit \<Rightarrow> nat
     \<Rightarrow> (server_error + session) \<times> bool" where
  "native_new android redirect fd duplicate sp n =
     (if \<not> android then (Inl (Failed ''USB FD server is Android-only''), False)
      else case redirect of
             Inl e \<Rightarrow> (Inl (Failed e), False)
           | Inr _ \<Rightarrow>
               if fd < 0 then (Inl (Failed ''USB connection is closed''), False)
               else case duplicate of
                      Inl e \<Rightarrow> (Inl (Failed e), False)
                    | Inr _ \<Rightarrow>
                        (case sp of
                           Inl e \<Rightarrow> (Inl (Failed e), False)
                         | Inr _ \<Rightarrow>
                             (Inr \<lparr>stop_flag = False, join_handle = True, worker_lock = None,
                                   completion = True, oneshot = None, worker_at = Serving,
                                   descriptor_open = True, callers = replicate n Idle\<rparr>, True)))"

section \<open>run, stop and the drops\<close>

definition caller_at :: "session \<Rightarrow> nat \<Rightarrow> caller_pc option" where
  "caller_at s i = (if i < length (callers s) then Some (callers s ! i) else None)"

definition goto :: "nat \<Rightarrow> caller_pc \<Rightarrow> session \<Rightarrow> session" where
  "goto i p s = s\<lparr>callers := (callers s)[i := p]\<rparr>"

text \<open>\<^verbatim>\<open>run\<close> up to its first await: the completion is taken once.\<close>

definition call_run :: "nat \<Rightarrow> session \<Rightarrow> session" where
  "call_run i s =
     (if completion s then goto i Awaiting (s\<lparr>completion := False\<rparr>) else goto i Refused s)"

text \<open>\<^verbatim>\<open>completion.await.map_err(failed)?\<close>; then the guard is dropped.\<close>

definition await_result :: "serve_result option \<Rightarrow> serve_result" where
  "await_result r = (case r of None \<Rightarrow> Inl (Failed ''oneshot canceled'') | Some r \<Rightarrow> r)"

definition poll_run :: "nat \<Rightarrow> session \<Rightarrow> session" where
  "poll_run i s =
     (case oneshot s of
        None \<Rightarrow> s
      | Some r \<Rightarrow> goto i (Storing (By_Ready (await_result r))) s)"

text \<open>
  \<^verbatim>\<open>stop\<close> in three steps: store the flag, take the handle under the lock, join. The lock is kept
  across the join; a caller that finds no handle returns.
\<close>

definition stop_store :: "nat \<Rightarrow> stop_reason \<Rightarrow> session \<Rightarrow> session" where
  "stop_store i g s = goto i (Locking g) (s\<lparr>stop_flag := True\<rparr>)"

definition stop_lock :: "nat \<Rightarrow> stop_reason \<Rightarrow> session \<Rightarrow> session option" where
  "stop_lock i g s =
     (if worker_lock s \<noteq> None then None
      else Some (if join_handle s
                 then goto i (Joining g) (s\<lparr>join_handle := False, worker_lock := Some i\<rparr>)
                 else goto i (Finished g) s))"

definition stop_join :: "nat \<Rightarrow> stop_reason \<Rightarrow> session \<Rightarrow> session option" where
  "stop_join i g s =
     (if worker_at s = Exited then Some (goto i (Finished g) (s\<lparr>worker_lock := None\<rparr>)) else None)"

text \<open>The object is dropped by its last owner: no caller is inside a method.\<close>

definition no_caller_inside :: "session \<Rightarrow> bool" where
  "no_caller_inside s \<longleftrightarrow>
     list_all (\<lambda>p. case p of Idle \<Rightarrow> True | Refused \<Rightarrow> True | Finished _ \<Rightarrow> True | _ \<Rightarrow> False) (callers s)"

section \<open>The steps\<close>

datatype action =
    Call_Stop nat | Call_Run nat | Drop_Server nat
  | Poll nat | Cancel nat | Advance nat
  | Serve_Ends "serve_result option" | Send_Result

text \<open>
  One atomic step, \<open>None\<close> if it is not possible. \<open>Advance\<close> is the next step of a caller inside
  \<^verbatim>\<open>stop\<close>. When \<^verbatim>\<open>serve\<close> returns or unwinds, the descriptor it owns is closed.
\<close>

fun native_step :: "action \<Rightarrow> session \<Rightarrow> session option" where
  "native_step (Call_Stop i) s =
     (if caller_at s i = Some Idle then Some (goto i (Storing By_Stop) s) else None)"
| "native_step (Call_Run i) s = (if caller_at s i = Some Idle then Some (call_run i s) else None)"
| "native_step (Drop_Server i) s =
     (if caller_at s i = Some Idle \<and> no_caller_inside s then Some (goto i (Storing By_Drop) s) else None)"
| "native_step (Poll i) s = (if caller_at s i = Some Awaiting then Some (poll_run i s) else None)"
| "native_step (Cancel i) s =
     (if caller_at s i = Some Awaiting then Some (goto i (Storing By_Cancel) s) else None)"
| "native_step (Advance i) s =
     (case caller_at s i of
        Some (Storing g) \<Rightarrow> Some (stop_store i g s)
      | Some (Locking g) \<Rightarrow> stop_lock i g s
      | Some (Joining g) \<Rightarrow> stop_join i g s
      | _ \<Rightarrow> None)"
| "native_step (Serve_Ends r) s =
     (if worker_at s = Serving then Some (s\<lparr>worker_at := Leaving r, descriptor_open := False\<rparr>) else None)"
| "native_step Send_Result s =
     (case worker_at s of
        Leaving r \<Rightarrow> Some (s\<lparr>worker_at := Exited, oneshot := Some r\<rparr>)
      | _ \<Rightarrow> None)"

inductive reachable :: "session \<Rightarrow> session \<Rightarrow> bool" for s0 where
  start: "reachable s0 s0"
| step: "\<lbrakk> reachable s0 s; native_step a s = Some s' \<rbrakk> \<Longrightarrow> reachable s0 s'"

inductive_cases reachableE: "reachable s0 s"

fun native_run :: "action list \<Rightarrow> session \<Rightarrow> session option" where
  "native_run [] s = Some s"
| "native_run (a # as) s = Option.bind (native_step a s) (native_run as)"

lemma native_run_reachable: "\<lbrakk> native_run as s = Some s'; reachable s0 s \<rbrakk> \<Longrightarrow> reachable s0 s'"
  by (induction "as" arbitrary: s) (auto simp: bind_eq_Some_conv intro: reachable.step)

section \<open>The invariant\<close>

text \<open>A caller past its store of the flag.\<close>

fun past_store :: "caller_pc \<Rightarrow> bool" where
  "past_store (Locking g) = True"
| "past_store (Joining g) = True"
| "past_store (Finished g) = True"
| "past_store _ = False"

fun is_joining :: "caller_pc \<Rightarrow> bool" where
  "is_joining (Joining g) = True"
| "is_joining _ = False"

fun is_finished :: "caller_pc \<Rightarrow> bool" where
  "is_finished (Finished g) = True"
| "is_finished _ = False"

fun is_awaiting :: "caller_pc \<Rightarrow> bool" where
  "is_awaiting Awaiting = True"
| "is_awaiting _ = False"

text \<open>The result a future of \<^verbatim>\<open>run\<close> will return.\<close>

fun ready_result :: "caller_pc \<Rightarrow> serve_result option" where
  "ready_result (Storing (By_Ready r)) = Some r"
| "ready_result (Locking (By_Ready r)) = Some r"
| "ready_result (Joining (By_Ready r)) = Some r"
| "ready_result (Finished (By_Ready r)) = Some r"
| "ready_result _ = None"

lemma ready_result_stop [simp]:
  "ready_result (Locking g) = ready_result (Storing g)"
  "ready_result (Joining g) = ready_result (Storing g)"
  "ready_result (Finished g) = ready_result (Storing g)"
  by (cases g; simp)+

definition shared_ok :: "session \<Rightarrow> bool" where
  "shared_ok s \<longleftrightarrow>
     (descriptor_open s \<longleftrightarrow> worker_at s = Serving)
     \<and> (oneshot s \<noteq> None \<longleftrightarrow> worker_at s = Exited)
     \<and> (\<forall>i. worker_lock s = Some i \<longrightarrow> i < length (callers s) \<and> \<not> join_handle s)
     \<and> (\<not> join_handle s \<and> worker_lock s = None \<longrightarrow> worker_at s = Exited)"

text \<open>What holds of one caller, as far as the shared fields tell.\<close>

definition caller_ok :: "session \<Rightarrow> nat \<Rightarrow> caller_pc \<Rightarrow> bool" where
  "caller_ok s i p \<longleftrightarrow>
     (past_store p \<longrightarrow> stop_flag s) \<and> (is_joining p \<longleftrightarrow> worker_lock s = Some i)
     \<and> (is_finished p \<longrightarrow> worker_at s = Exited) \<and> (is_awaiting p \<longrightarrow> \<not> completion s)
     \<and> (ready_result p \<noteq> None \<longrightarrow> map_option await_result (oneshot s) = ready_result p)"

definition session_ok :: "session \<Rightarrow> bool" where
  "session_ok s \<longleftrightarrow> shared_ok s \<and> (\<forall>i < length (callers s). caller_ok s i (callers s ! i))"

lemma caller_at_Some: "caller_at s i = Some p \<longleftrightarrow> i < length (callers s) \<and> callers s ! i = p"
  by (simp add: caller_at_def)

lemma goto_fields [simp]:
  "stop_flag (goto i p s) = stop_flag s" "join_handle (goto i p s) = join_handle s"
  "worker_lock (goto i p s) = worker_lock s" "completion (goto i p s) = completion s"
  "oneshot (goto i p s) = oneshot s" "worker_at (goto i p s) = worker_at s"
  "descriptor_open (goto i p s) = descriptor_open s" "callers (goto i p s) = (callers s)[i := p]"
  "shared_ok (goto i p s) = shared_ok s" "caller_ok (goto i p s) j q = caller_ok s j q"
  by (simp_all add: goto_def shared_ok_def caller_ok_def)

text \<open>
  One caller moves and the shared fields change: the other callers must not notice.
\<close>

lemma session_ok_goto:
  assumes "session_ok s" and "callers t = callers s" and "shared_ok t" and "caller_ok t i p"
    and "\<And>j q. j \<noteq> i \<Longrightarrow> caller_ok s j q \<Longrightarrow> caller_ok t j q"
  shows "session_ok (goto i p t)"
proof -
  have "caller_ok t j ((callers s)[i := p] ! j)" if "j < length (callers s)" for j
    using assms that by (cases "j = i") (auto simp: session_ok_def)
  with assms(2,3) show ?thesis by (simp add: session_ok_def)
qed

lemma session_ok_move:
  "\<lbrakk> session_ok s; caller_ok s i p \<rbrakk> \<Longrightarrow> session_ok (goto i p s)"
  by (rule session_ok_goto) (auto simp: session_ok_def)

lemma session_ok_caller:
  "\<lbrakk> session_ok s; caller_at s i = Some p \<rbrakk> \<Longrightarrow> shared_ok s \<and> caller_ok s i p \<and> i < length (callers s)"
  by (auto simp: session_ok_def caller_at_Some)

lemma session_ok_new:
  "native_new android redirect fd duplicate sp n = (Inr s, b) \<Longrightarrow> session_ok s"
  by (auto simp: native_new_def session_ok_def shared_ok_def caller_ok_def split: if_splits sum.splits)

text \<open>The steps inside \<^verbatim>\<open>stop\<close>.\<close>

lemma session_ok_store:
  assumes "session_ok s" and "caller_at s i = Some (Storing g)"
  shows "session_ok (stop_store i g s)"
  using session_ok_caller [OF assms] assms(1) unfolding stop_store_def
  by (intro session_ok_goto [OF assms(1)]) (auto simp: shared_ok_def caller_ok_def)

lemma session_ok_lock:
  assumes "session_ok s" and "caller_at s i = Some (Locking g)" and "stop_lock i g s = Some s'"
  shows "session_ok s'"
proof (cases "join_handle s")
  case True
  with assms(3) have "s' = goto i (Joining g) (s\<lparr>join_handle := False, worker_lock := Some i\<rparr>)"
    and "worker_lock s = None" by (auto simp: stop_lock_def split: if_splits)
  with session_ok_caller [OF assms(1,2)] show ?thesis
    by (auto intro!: session_ok_goto [OF assms(1)] simp: shared_ok_def caller_ok_def)
next
  case False
  with assms(3) have "s' = goto i (Finished g) s" and "worker_lock s = None"
    by (auto simp: stop_lock_def split: if_splits)
  with session_ok_caller [OF assms(1,2)] False show ?thesis
    by (auto intro!: session_ok_move [OF assms(1)] simp: shared_ok_def caller_ok_def)
qed

lemma session_ok_join:
  assumes "session_ok s" and "caller_at s i = Some (Joining g)" and "stop_join i g s = Some s'"
  shows "session_ok s'"
proof -
  from assms(3) have "s' = goto i (Finished g) (s\<lparr>worker_lock := None\<rparr>)" and "worker_at s = Exited"
    by (auto simp: stop_join_def split: if_splits)
  with session_ok_caller [OF assms(1,2)] show ?thesis
    by (auto intro!: session_ok_goto [OF assms(1)] simp: shared_ok_def caller_ok_def)
qed

lemma session_ok_step:
  assumes "session_ok s" and "native_step a s = Some s'"
  shows "session_ok s'"
proof (cases a)
  case (Call_Stop i)
  with assms session_ok_caller [OF assms(1), of i Idle] show ?thesis
    by (auto intro!: session_ok_move simp: caller_ok_def split: if_splits)
next
  case (Call_Run i)
  with assms have i: "caller_at s i = Some Idle" and s': "s' = call_run i s" by (auto split: if_splits)
  note ok = session_ok_caller [OF assms(1) i]
  show ?thesis
  proof (cases "completion s")
    case True
    with ok show ?thesis
      unfolding s' call_run_def
      by (simp, intro session_ok_goto [OF assms(1)]) (auto simp: shared_ok_def caller_ok_def)
  next
    case False
    with ok assms(1) show ?thesis
      unfolding s' call_run_def by (auto intro!: session_ok_move simp: caller_ok_def)
  qed
next
  case (Drop_Server i)
  with assms session_ok_caller [OF assms(1), of i Idle] show ?thesis
    by (auto intro!: session_ok_move simp: caller_ok_def split: if_splits)
next
  case (Poll i)
  with assms session_ok_caller [OF assms(1), of i Awaiting] show ?thesis
    by (auto intro!: session_ok_move simp: caller_ok_def poll_run_def split: if_splits option.splits)
next
  case (Cancel i)
  with assms session_ok_caller [OF assms(1), of i Awaiting] show ?thesis
    by (auto intro!: session_ok_move simp: caller_ok_def split: if_splits)
next
  case (Advance i)
  with assms show ?thesis
    by (auto intro: session_ok_store session_ok_lock session_ok_join
        split: option.splits caller_pc.splits)
next
  case (Serve_Ends r)
  with assms show ?thesis
    by (auto simp: session_ok_def shared_ok_def caller_ok_def split: if_splits)
next
  case Send_Result
  with assms show ?thesis
    by (auto simp: session_ok_def shared_ok_def caller_ok_def split: worker_pc.splits)
qed

lemma session_ok_reachable: "\<lbrakk> reachable s0 s; session_ok s0 \<rbrakk> \<Longrightarrow> session_ok s"
  by (induction rule: reachable.induct) (auto intro: session_ok_step)

section \<open>Stopping always succeeds\<close>






section \<open>Properties\<close>

text \<open>
  C25. \<^verbatim>\<open>stop\<close> is the barrier its documentation promises, for every caller and every interleaving:
  when any call of \<^verbatim>\<open>stop\<close>, any future of \<^verbatim>\<open>run\<close> that ended or was dropped, or a drop of the
  object has returned, the flag is set, the worker thread has ended and the duplicated descriptor is
  closed, also if another caller did the joining.
\<close>

theorem stop_is_a_barrier:
  assumes "native_new android redirect fd duplicate sp n = (Inr s0, b)" and "reachable s0 s"
    and "caller_at s i = Some (Finished g)"
  shows "stop_flag s \<and> worker_at s = Exited \<and> \<not> descriptor_open s"
proof -
  have "session_ok s" using session_ok_reachable [OF assms(2) session_ok_new [OF assms(1)]] .
  from session_ok_caller [OF this assms(3)] show ?thesis by (auto simp: caller_ok_def shared_ok_def)
qed

text \<open>Two callers stop at once: the second waits for the join of the first.\<close>

definition new_session :: session where
  "new_session = \<lparr>stop_flag = False, join_handle = True, worker_lock = None, completion = True,
     oneshot = None, worker_at = Serving, descriptor_open = True, callers = [Idle, Idle]\<rparr>"

lemma native_new_session:
  "native_new True (Inr ()) 7 (Inr 9) (Inr ()) 2 = (Inr new_session, True)"
  by (simp add: native_new_def new_session_def numeral_2_eq_2)

definition two_stops :: "action list" where
  "two_stops = [Call_Stop 0, Call_Stop 1, Advance 0, Advance 1, Advance 0, Serve_Ends (Some (Inr ())),
     Send_Result, Advance 0, Advance 1]"

lemmas native_steps = goto_def caller_at_def stop_store_def stop_lock_def stop_join_def

theorem stop_is_a_barrier_witness:
  "\<exists>s. native_run two_stops new_session = Some s \<and> caller_at s 1 = Some (Finished By_Stop)
     \<and> native_run (take 5 two_stops @ [Advance 1]) new_session = None
     \<and> worker_at s = Exited \<and> \<not> descriptor_open s"
proof -
  obtain s where run: "native_run two_stops new_session = Some s"
    and at: "caller_at s 1 = Some (Finished By_Stop)"
    by (simp add: two_stops_def new_session_def native_steps)
  have "reachable new_session s" using native_run_reachable [OF run reachable.start] .
  note stop_is_a_barrier [OF native_new_session this at]
  moreover have "native_run (take 5 two_stops @ [Advance 1]) new_session = None"
    by (simp add: two_stops_def new_session_def native_steps)
  ultimately show ?thesis using run at by blast
qed



text \<open>
  A future of \<^verbatim>\<open>run\<close> that returns a result returns what the worker sent, or an error if the
  worker panicked without sending; and by then the session is over.
\<close>

theorem run_returns_the_result:
  assumes "native_new android redirect fd duplicate sp n = (Inr s0, b)" and "reachable s0 s"
    and "caller_at s i = Some (Finished (By_Ready r))"
  shows "\<exists>sent. oneshot s = Some sent \<and> r = await_result sent \<and> worker_at s = Exited"
proof -
  have "session_ok s" using session_ok_reachable [OF assms(2) session_ok_new [OF assms(1)]] .
  from session_ok_caller [OF this assms(3)] show ?thesis by (auto simp: caller_ok_def)
qed

text \<open>The worker fails by itself; the second call of \<^verbatim>\<open>run\<close> is refused.\<close>

definition failing_run :: "action list" where
  "failing_run = [Call_Run 0, Call_Run 1, Poll 0, Serve_Ends (Some (Inl (Failed ''unplugged''))),
     Send_Result, Poll 0, Advance 0, Advance 0, Advance 0]"

theorem run_returns_the_result_witness:
  "\<exists>s. native_run failing_run new_session = Some s \<and> caller_at s 1 = Some Refused
     \<and> caller_at s 0 = Some (Finished (By_Ready (Inl (Failed ''unplugged''))))
     \<and> map_option await_result (oneshot s) = Some (Inl (Failed ''unplugged''))"
proof -
  obtain s where run: "native_run failing_run new_session = Some s" and refused: "caller_at s 1 = Some Refused"
    and at: "caller_at s 0 = Some (Finished (By_Ready (Inl (Failed ''unplugged''))))"
    by (simp add: failing_run_def new_session_def native_steps call_run_def poll_run_def await_result_def)
  have "reachable new_session s" using native_run_reachable [OF run reachable.start] .
  from run_returns_the_result [OF native_new_session this at] run refused at show ?thesis by auto
qed

end
