(* ===== verification/Log_Redirect.thy ===== *)
theory Log_Redirect
  imports Native_Server
begin

text \<open>
  \<^verbatim>\<open>redirect_output\<close> of examples/gatt-peripheral-android/native/src/android.rs: once per process,
  stdout and stderr become the writing end of a pipe, and a thread copies what arrives at the reading
  end to the Android log, line by line. The results of the system calls are parameters; the
  descriptors of the process are a map, so that what is left open is part of the model.
\<close>

section \<open>Descriptors and the once-only initialisation\<close>

text \<open>What a descriptor refers to: an end of the pipe, or something that was open before.\<close>

datatype open_file = Pipe_Reader | Pipe_Writer | Earlier_File nat

type_synonym descriptors = "int \<rightharpoonup> open_file"

definition STDOUT_FILENO :: int where "STDOUT_FILENO = 1"

definition STDERR_FILENO :: int where "STDERR_FILENO = 2"

text \<open>\<^verbatim>\<open>pipe2\<close>, \<^verbatim>\<open>spawn\<close>, and \<^verbatim>\<open>dup2\<close> per destination: an error message or success.\<close>

record log_os =
  pipe2_result :: "string + int \<times> int"
  log_spawn :: "string + unit"
  dup2_result :: "int \<Rightarrow> string + unit"

text \<open>INIT, the open descriptors, and the descriptor each running log thread reads.\<close>

record output_state =
  init_cell :: "(string + unit) option"
  open_files :: descriptors
  log_threads :: "int list"

definition close_fd :: "int \<Rightarrow> output_state \<Rightarrow> output_state" where
  "close_fd fd st = st\<lparr>open_files := (open_files st)(fd := None)\<rparr>"

text \<open>The loop over the destinations; an early return on the first failure.\<close>

fun dup_all :: "log_os \<Rightarrow> int list \<Rightarrow> output_state \<Rightarrow> (string + unit) \<times> output_state" where
  "dup_all os [] st = (Inr (), st)"
| "dup_all os (d # ds) st =
     (case dup2_result os d of
        Inl e \<Rightarrow> (Inl e, st)
      | Inr _ \<Rightarrow> dup_all os ds (st\<lparr>open_files := (open_files st)(d \<mapsto> Pipe_Writer)\<rparr>))"

text \<open>
  The closure of \<^verbatim>\<open>get_or_init\<close>. The reader moves into the thread's closure and is dropped with it
  if the thread cannot be created; the writer is dropped at every return.
\<close>

definition init_redirect :: "log_os \<Rightarrow> output_state \<Rightarrow> (string + unit) \<times> output_state" where
  "init_redirect os st =
     (case pipe2_result os of
        Inl e \<Rightarrow> (Inl e, st)
      | Inr (reader, writer) \<Rightarrow>
          (let st1 = st\<lparr>open_files := (open_files st)(reader \<mapsto> Pipe_Reader, writer \<mapsto> Pipe_Writer)\<rparr>
           in case log_spawn os of
                Inl e \<Rightarrow> (Inl e, close_fd writer (close_fd reader st1))
              | Inr _ \<Rightarrow>
                  (case dup_all os [STDOUT_FILENO, STDERR_FILENO]
                          (st1\<lparr>log_threads := log_threads st1 @ [reader]\<rparr>) of
                     (r, st2) \<Rightarrow> (r, close_fd writer st2))))"

definition redirect_output :: "log_os \<Rightarrow> output_state \<Rightarrow> (string + unit) \<times> output_state" where
  "redirect_output os st =
     (case init_cell st of
        Some r \<Rightarrow> (r, st)
      | None \<Rightarrow> (case init_redirect os st of (r, st') \<Rightarrow> (r, st'\<lparr>init_cell := Some r\<rparr>)))"

section \<open>The log thread\<close>

text \<open>
  What the pipe delivers until its end: bytes, and reads that failed. \<^verbatim>\<open>BufRead::split\<close> gives the
  lines without their newline, a last line without one if it is not empty, and an error for a failed
  read, which loses the line it interrupts.
\<close>

fun split_lines :: "bytes \<Rightarrow> (string + u8) list \<Rightarrow> (string + bytes) list" where
  "split_lines acc [] = (if acc = [] then [] else [Inr acc])"
| "split_lines acc (Inr b # xs) =
     (if b = 10 then Inr acc # split_lines [] xs else split_lines (acc @ [b]) xs)"
| "split_lines acc (Inl e # xs) = Inl e # split_lines [] xs"

text \<open>\<^verbatim>\<open>CString::new\<close> refuses an inner NUL.\<close>

definition cstring_new :: "bytes \<Rightarrow> bytes option" where
  "cstring_new bs = (if 0 \<in> set bs then None else Some bs)"

text \<open>The messages written to the log with priority 4, in order; \<^verbatim>\<open>flatten\<close> skips the errors.\<close>

definition log_line :: "string + bytes \<Rightarrow> bytes list" where
  "log_line r =
     (case r of
        Inl _ \<Rightarrow> []
      | Inr line \<Rightarrow>
          (case cstring_new (filter (\<lambda>b. b \<noteq> 0) line) of None \<Rightarrow> [] | Some message \<Rightarrow> [message]))"

definition logged :: "(string + u8) list \<Rightarrow> bytes list" where
  "logged source = concat (map log_line (split_lines [] source))"

section \<open>NativeServer::new on Android\<close>

text \<open>The constructor redirects the output first.\<close>

definition android_new ::
  "log_os \<Rightarrow> int \<Rightarrow> string + int \<Rightarrow> string + unit \<Rightarrow> nat \<Rightarrow> output_state
     \<Rightarrow> ((server_error + session) \<times> bool) \<times> output_state" where
  "android_new os fd duplicate sp n st =
     (case redirect_output os st of (r, st') \<Rightarrow> (native_new True r fd duplicate sp n, st'))"

section \<open>What a call leaves behind\<close>

text \<open>The documented behaviour of \<^verbatim>\<open>pipe2\<close>: two descriptors that were not open.\<close>

definition pipe_fresh :: "log_os \<Rightarrow> output_state \<Rightarrow> bool" where
  "pipe_fresh os st \<longleftrightarrow>
     (case pipe2_result os of
        Inl _ \<Rightarrow> True
      | Inr (r, w) \<Rightarrow> r \<noteq> w \<and> open_files st r = None \<and> open_files st w = None)"

text \<open>A process with stdout and stderr open, before the first call.\<close>

definition before_redirect :: "output_state \<Rightarrow> bool" where
  "before_redirect st \<longleftrightarrow>
     init_cell st = None \<and> log_threads st = []
     \<and> open_files st STDOUT_FILENO \<noteq> None \<and> open_files st STDERR_FILENO \<noteq> None"

lemma fds_distinct [simp]: "STDOUT_FILENO \<noteq> STDERR_FILENO" "STDERR_FILENO \<noteq> STDOUT_FILENO"
  by (simp_all add: STDOUT_FILENO_def STDERR_FILENO_def)

lemma redirect_again:
  "redirect_output os st = (r, st') \<Longrightarrow> redirect_output os' st' = (r, st')"
  by (auto simp: redirect_output_def split: option.splits prod.splits)

text \<open>A sequence of calls, each with system calls of its own.\<close>

primrec redirect_all :: "log_os list \<Rightarrow> output_state \<Rightarrow> (string + unit) list \<times> output_state" where
  "redirect_all [] st = ([], st)"
| "redirect_all (os # oss) st =
     (case redirect_output os st of
        (r, st') \<Rightarrow> (case redirect_all oss st' of (rs, st'') \<Rightarrow> (r # rs, st'')))"

lemma redirect_all_again:
  "redirect_output os st = (r, st') \<Longrightarrow> redirect_all oss st' = (replicate (length oss) r, st')"
  by (induction oss) (auto simp: redirect_again [of os st r st'])

section \<open>Properties\<close>

text \<open>
  C33. The redirection happens once. Whatever the system calls of later calls would return, every call
  returns what the first returned and changes nothing. After a success stdout and stderr write to
  the pipe, one thread reads it and owns its only other descriptor, so the pipe ends when both are
  closed; a failure to create the pipe or the thread leaves the descriptors as they were; and a
  failed \<^verbatim>\<open>dup2\<close> leaves at most stdout redirected, the writer itself never open.
\<close>

theorem redirect_once:
  assumes "before_redirect st" and "pipe_fresh os st" and "redirect_all (os # oss) st = (rs, st')"
  shows "\<exists>r. rs = replicate (Suc (length oss)) r
    \<and> (case pipe2_result os of
         Inl e \<Rightarrow> r = Inl e \<and> open_files st' = open_files st \<and> log_threads st' = []
       | Inr (reader, writer) \<Rightarrow>
           (case log_spawn os of
              Inl e \<Rightarrow> r = Inl e \<and> open_files st' = open_files st \<and> log_threads st' = []
            | Inr _ \<Rightarrow>
                log_threads st' = [reader] \<and> open_files st' writer = None
                \<and> (r = Inr () \<longrightarrow> open_files st' =
                     (open_files st)(reader \<mapsto> Pipe_Reader, STDOUT_FILENO \<mapsto> Pipe_Writer,
                                     STDERR_FILENO \<mapsto> Pipe_Writer))
                \<and> (r \<noteq> Inr () \<longrightarrow> open_files st' STDERR_FILENO = open_files st STDERR_FILENO)))"
proof -
  obtain r st1 where r: "redirect_output os st = (r, st1)" by (cases "redirect_output os st")
  with assms(3) redirect_all_again [OF r, of oss] have rs: "rs = replicate (Suc (length oss)) r" and st': "st' = st1"
    by simp_all
  from assms(1) have none: "init_cell st = None" "log_threads st = []" and
    open_std: "open_files st STDOUT_FILENO \<noteq> None" "open_files st STDERR_FILENO \<noteq> None"
    by (simp_all add: before_redirect_def)
  show ?thesis
  proof (intro exI conjI)
    show "rs = replicate (Suc (length oss)) r" by (rule rs)
  next
    show "case pipe2_result os of
         Inl e \<Rightarrow> r = Inl e \<and> open_files st' = open_files st \<and> log_threads st' = []
       | Inr (reader, writer) \<Rightarrow>
           (case log_spawn os of
              Inl e \<Rightarrow> r = Inl e \<and> open_files st' = open_files st \<and> log_threads st' = []
            | Inr _ \<Rightarrow>
                log_threads st' = [reader] \<and> open_files st' writer = None
                \<and> (r = Inr () \<longrightarrow> open_files st' =
                     (open_files st)(reader \<mapsto> Pipe_Reader, STDOUT_FILENO \<mapsto> Pipe_Writer,
                                     STDERR_FILENO \<mapsto> Pipe_Writer))
                \<and> (r \<noteq> Inr () \<longrightarrow> open_files st' STDERR_FILENO = open_files st STDERR_FILENO))"
    proof (cases "pipe2_result os")
      case (Inl e)
      with r none show ?thesis by (auto simp: st' redirect_output_def init_redirect_def)
    next
      case (Inr p)
      obtain reader writer where p: "p = (reader, writer)" by (cases p)
      with Inr assms(2) have fresh: "reader \<noteq> writer" "open_files st reader = None" "open_files st writer = None"
        by (simp_all add: pipe_fresh_def)
      with open_std have std: "reader \<notin> {STDOUT_FILENO, STDERR_FILENO}" "writer \<notin> {STDOUT_FILENO, STDERR_FILENO}"
        by auto
      from r none Inr p fresh std show ?thesis
        by (auto simp: st' redirect_output_def init_redirect_def close_fd_def Let_def fun_upd_idem_iff
            fun_upd_twist split: sum.splits)
    qed
  qed
qed

definition android_process :: output_state where
  "android_process =
     \<lparr>init_cell = None,
      open_files = [0 \<mapsto> Earlier_File 0, 1 \<mapsto> Earlier_File 0, 2 \<mapsto> Earlier_File 0],
      log_threads = []\<rparr>"

definition working_os :: log_os where
  "working_os = \<lparr>pipe2_result = Inr (5, 6), log_spawn = Inr (), dup2_result = \<lambda>_. Inr ()\<rparr>"

definition failing_os :: log_os where
  "failing_os = \<lparr>pipe2_result = Inl ''EMFILE'', log_spawn = Inl '''', dup2_result = \<lambda>_. Inl ''''\<rparr>"

theorem redirect_once_witness:
  "\<exists>st'. redirect_all [working_os, failing_os] android_process = ([Inr (), Inr ()], st')
     \<and> open_files st' 1 = Some Pipe_Writer \<and> open_files st' 2 = Some Pipe_Writer
     \<and> open_files st' 5 = Some Pipe_Reader \<and> open_files st' 6 = None \<and> log_threads st' = [5]"
proof -
  obtain rs st' where run: "redirect_all [working_os, failing_os] android_process = (rs, st')"
    by (cases "redirect_all [working_os, failing_os] android_process")
  have "rs = [Inr (), Inr ()]"
    using run by (simp add: redirect_output_def init_redirect_def working_os_def android_process_def Let_def
        split: prod.splits)
  moreover have "before_redirect android_process" "pipe_fresh working_os android_process"
    by (simp_all add: before_redirect_def pipe_fresh_def android_process_def working_os_def
        STDOUT_FILENO_def STDERR_FILENO_def)
  note redirect_once [OF this run]
  ultimately show ?thesis
    using run by (auto simp: working_os_def STDOUT_FILENO_def STDERR_FILENO_def android_process_def)
qed

text \<open>The lines of a stream without failed reads put the text together again.\<close>

definition as_text :: "bytes list \<Rightarrow> bytes" where
  "as_text ls = concat (map (\<lambda>l. l @ [10]) ls)"

lemma log_line_Inr: "log_line (Inr l) = [filter (\<lambda>b. b \<noteq> 0) l]"
  by (simp add: log_line_def cstring_new_def)

lemma logged_text:
  "as_text (concat (map log_line (split_lines acc (map Inr bs)))) =
     filter (\<lambda>b. b \<noteq> 0) (acc @ bs)
     @ (if acc @ bs = [] \<or> bs \<noteq> [] \<and> last bs = 10 then [] else [10])"
  by (induction bs arbitrary: acc) (simp_all add: as_text_def log_line_Inr)

lemma split_lines_no_newline:
  "10 \<notin> set acc \<Longrightarrow> Inr l \<in> set (split_lines acc xs) \<Longrightarrow> 10 \<notin> set l"
  by (induction acc xs rule: split_lines.induct) (auto split: if_splits)

lemma split_lines_at_newline:
  "split_lines acc (xs @ Inr 10 # ys) = split_lines acc (xs @ [Inr 10]) @ split_lines [] ys"
  by (induction acc xs rule: split_lines.induct) simp_all

text \<open>
  C34. The log loses nothing of the output. While the reads succeed, the messages put together with
  newlines are what was written, without its NUL bytes (and with a newline after an unfinished last
  line); no message has a NUL, so \<^verbatim>\<open>CString::new\<close> never drops a line, nor a newline; and after a
  finished line a failed read costs no text.
\<close>

theorem log_keeps_the_text:
  "as_text (logged (map Inr bs)) =
     filter (\<lambda>b. b \<noteq> 0) bs @ (if bs = [] \<or> last bs = 10 then [] else [10])
   \<and> list_all (\<lambda>m. 0 \<notin> set m \<and> 10 \<notin> set m) (logged source)
   \<and> length (logged source) = length (filter (\<lambda>l. \<not> isl l) (split_lines [] source))
   \<and> logged (before @ Inr 10 # Inl e # after) = logged (before @ [Inr 10]) @ logged after"
proof -
  have "as_text (logged (map Inr bs)) =
     filter (\<lambda>b. b \<noteq> 0) bs @ (if bs = [] \<or> last bs = 10 then [] else [10])"
    using logged_text [of "[]" bs] by (auto simp: logged_def)
  moreover have "list_all (\<lambda>m. 0 \<notin> set m \<and> 10 \<notin> set m) (logged source)"
    using split_lines_no_newline [of "[]"]
    by (fastforce simp: logged_def list_all_iff log_line_def cstring_new_def split: sum.splits if_splits)
  moreover have "length (concat (map log_line ls)) = length (filter (\<lambda>l. \<not> isl l) ls)" for ls
  proof (induction ls)
    case (Cons l ls)
    then show ?case by (cases l) (simp_all add: log_line_Inr, simp add: log_line_def)
  qed simp
  then have "length (logged source) = length (filter (\<lambda>l. \<not> isl l) (split_lines [] source))"
    by (simp add: logged_def)
  moreover have "logged (before @ Inr 10 # Inl e # after) = logged (before @ [Inr 10]) @ logged after"
    using split_lines_at_newline [of "[]" before "Inl e # after"] by (simp add: logged_def log_line_def)
  ultimately show ?thesis by blast
qed

text \<open>
  A session starts only with its output redirected: \<^verbatim>\<open>NativeServer::new\<close> on Android gives a
  session exactly when the redirection succeeded, now or in an earlier call, the descriptor is one, and
  it could be duplicated and the thread created; and what the first redirection gave decides for every
  later call, so that after a failed one no call gives a session.
\<close>

theorem session_needs_the_log:
  "((\<exists>s b st'. android_new os fd duplicate sp n st = ((Inr s, b), st')) \<longleftrightarrow>
     fst (redirect_output os st) = Inr () \<and> 0 \<le> fd \<and> \<not> isl duplicate \<and> \<not> isl sp)
   \<and> ((\<exists>s b st'. android_new os' fd' duplicate' sp' n' (snd (redirect_output os st)) = ((Inr s, b), st')) \<longleftrightarrow>
     fst (redirect_output os st) = Inr () \<and> 0 \<le> fd' \<and> \<not> isl duplicate' \<and> \<not> isl sp')"
proof -
  have new: "(\<exists>s b st'. android_new os fd duplicate sp n st = ((Inr s, b), st')) \<longleftrightarrow>
      fst (redirect_output os st) = Inr () \<and> 0 \<le> fd \<and> \<not> isl duplicate \<and> \<not> isl sp"
    for os fd duplicate sp n st
    by (cases "redirect_output os st"; cases duplicate; cases sp)
      (auto simp: android_new_def native_new_def split: sum.split)
  obtain r st1 where r: "redirect_output os st = (r, st1)" by (cases "redirect_output os st")
  show ?thesis unfolding new using redirect_again [OF r, of os'] r by simp
qed

end
