(* ===== verification/Unit_Tests.thy ===== *)
theory Unit_Tests
  imports Example_App Native_Server
begin

text \<open>
  The unit tests of the repository, run on the model: one definition per \<^verbatim>\<open>#[test]\<close>, the
  conjunction of its assertions on the values the model's operations return. A passing suite compares
  the model with what the authors expect of the code, return codes and bytes included. \<open>oc\<close> is the
  build's overflow-check setting; the tests pass with either.
\<close>

section \<open>btstack-core/src/advertising.rs\<close>





section \<open>btstack-core/src/gatt.rs\<close>



section \<open>btstack-core/src/runtime.rs\<close>










section \<open>btstack-gatt/src/lib.rs\<close>



section \<open>examples/gatt-peripheral/src/args.rs\<close>





section \<open>examples/gatt-peripheral-android/native/src/lib.rs\<close>






section \<open>The suite passes\<close>















end
