(* ===== verification/Spec2Isabelle.thy ===== *)
theory Spec2Isabelle
  imports Wakeup Subscriber_Tracking Att_Properties Session_Refinement Event_Delivery Log_Redirect
    Unit_Tests
begin

text \<open>
  \<^bold>\<open>A verification library for btstack-gatt-rs\<close>

  The program is a Rust library that runs a Bluetooth LE GATT peripheral on the C stack BTstack over a
  host transport. This library models its Rust crates and its C shim, and proves what makes each part
  and their composition correct.

  \<^bold>\<open>The parts and how they interact\<close>

  An application configures a server with the builder of \<^verbatim>\<open>btstack-gatt\<close>. Starting it
  validates the service table and the advertising payload, reserves the process (only one stack may
  run) and spawns one \<^emph>\<open>stack thread\<close>. The stack thread owns the transport, the server state and
  BTstack; it registers the attributes through the shim \<^verbatim>\<open>btstack-sys/c/bridge.c\<close>, powers the
  controller on and runs a loop: take commands of other threads, receive one packet, poll BTstack,
  handle the events the shim queued. BTstack calls back into Rust while it is polled: the ATT
  \<^verbatim>\<open>read\<close> and \<^verbatim>\<open>write\<close> callbacks (which call the application's handlers), \<^verbatim>\<open>send\<close>
  (which calls the transport) and \<^verbatim>\<open>event\<close>. Other threads talk to the loop through a bounded
  command channel and hear from it through an unbounded event channel. The transport of
  \<^verbatim>\<open>btstack-nusb\<close> has a receive worker of its own. The two example programs are a command-line
  server and an Android session object with the same serving loop.

  \<^bold>\<open>Theories and sources\<close>

  \<^item> \<open>Prelude\<close>, \<open>Channel\<close>, \<open>Uuid\<close>: machine integers, computations that may unwind, errors, the
    standard-library operations the sources use, \<^verbatim>\<open>mpsc\<close> channels and \<^verbatim>\<open>VecDeque\<close>
    (locale \<open>fifo_queue\<close>, interpreted on both and on the notifications of each peer).
  \<^item> \<open>Advertising\<close>: btstack-core/src/advertising.rs. The reference is a decoder of AD structures.
  \<^item> \<open>Gatt\<close>: btstack-core/src/gatt.rs, the data types, their builder functions, \<^verbatim>\<open>validate\<close>.
  \<^item> \<open>Hci\<close>: btstack-core/src/lib.rs and \<^verbatim>\<open>validate_packet\<close>, the framing check of every received
    packet. An implementation of \<^verbatim>\<open>HciTransport\<close> is a pair of functions that may fail or panic.
  \<^item> \<open>Server_State\<close>: \<^verbatim>\<open>State\<close> of btstack-core/src/runtime.rs, with the transitions on it
    for connections, MTU exchanges, the notify command and the notification queue; \<open>state_ok\<close> is its
    well-formedness invariant.
  \<^item> \<open>Att_Interface\<close>, \<open>Att_Callbacks\<close>, \<open>Att_Properties\<close>: the callbacks \<^verbatim>\<open>read\<close> and
    \<^verbatim>\<open>write\<close>; what every access returns, changes and reports, that handler panics are
    contained, and that a long read returns one snapshot (locale \<open>long_read\<close>).
  \<^item> \<open>Bridge\<close>, \<open>World\<close>: bridge.c and the C interface of btstack-sys/src/lib.rs. A call into BTstack is
    a program \<open>c_prog\<close>: any sequence of callbacks, chosen with the answers it gets. The locales
    \<open>callback_invariant\<close> and \<open>request_invariant\<close> carry an invariant through every call: what every
    callback keeps, every call keeps.
  \<^item> \<open>Event_Loop\<close>, \<open>Run_Loop\<close>, \<open>Loop_Contract\<close>, \<open>Loop_Properties\<close>: the event handlers,
    \<^verbatim>\<open>flush_notification\<close>, \<^verbatim>\<open>run\<close> and \<^verbatim>\<open>stop_controller\<close>. The locale
    \<open>loop_invariant\<close> extends the contract to both loops; \<open>transport_invariant\<close> is its instance for
    what a transport keeps of its own state.
  \<^item> \<open>Sessions\<close>, \<open>Session_Refinement\<close>, \<open>Peer_Properties\<close>: the abstract specification, a table of
    sessions with a step relation, and the proof that every run of the loop is a sequence of its steps;
    what single commands and events do for a peer.
  \<^item> \<open>Wakeup\<close>: the notification queue, the send requests of the shim and its events taken together; no
    pending notification is ever without a request or an event that will take care of it.
  \<^item> \<open>Runtime\<close>, \<open>Runtime_Properties\<close>: \<^verbatim>\<open>Runtime\<close> and the stack thread from its start to its
    teardown, ACTIVE and NEXT_CONNECTION, and the calls of other threads.
  \<^item> \<open>Call_Protocol\<close>, \<open>Call_Properties\<close>: the calls of a \<^verbatim>\<open>Runtime\<close> and the steps of its
    worker together, in every interleaving, through the real command and answer channels. Each
    interleaving is a run of the worker, so the theorems on \<open>run\<close> and \<open>worker\<close> hold of the two threads;
    the invariant of the channels gives the order of commands and answers, that a successful shutdown
    loses no command, and that Stop always gets through.
  \<^item> \<open>Event_Delivery\<close>: the same with the receives of the application; the events arrive in order, and the
    end of the worker after all of them.
  \<^item> \<open>Server_Builder\<close>: btstack-gatt/src/lib.rs.
  \<^item> \<open>Nusb\<close>: btstack-nusb/src/lib.rs. \<open>usb_run\<close> interleaves the rounds of the receive worker with the
    receives; the run loop over this transport is an interpretation of \<open>transport_invariant\<close>.
  \<^item> \<open>Args\<close>, \<open>Example_App\<close>: examples/gatt-peripheral/src (args.rs, main.rs) and the function
    \<^verbatim>\<open>serve\<close> of the Android example; the reference of the parser is a grammar, that of the
    serving loop the history of the events it received.
  \<^item> \<open>Subscriber_Tracking\<close>: the stack thread and the serving loop composed.
  \<^item> \<open>Native_Server\<close>: examples/gatt-peripheral-android/native/src/lib.rs, a state machine of the
    threads that call the session object.
  \<^item> \<open>Log_Redirect\<close>: \<^verbatim>\<open>redirect_output\<close> of examples/gatt-peripheral-android/native/src/android.rs,
    with the open descriptors of the process, the log thread, and the constructor of the session on top.
  \<^item> \<open>Unit_Tests\<close>: the unit tests of the crates, run on the model.
  \<^item> \<open>Example_World\<close>: a concrete transport, stack and server state on which theorems are exercised.

  \<^bold>\<open>Correspondence\<close>

  Functions keep the names of the sources; a loop or a match that has a meaning of its own is a
  definition of its own. A struct is a record, an error an element of a sum type with one constructor
  per message, a panic the value \<open>Panicked\<close>, a raw pointer a null flag or the bytes behind it. The
  thread-local variables of the stack thread are the fields of \<open>world\<close>. What a part cannot decide
  itself is its input: \<open>run\<close> takes, for each iteration, the results of its \<^verbatim>\<open>try_recv\<close> calls and
  the time since it began (in \<open>Call_Protocol\<close> those results come out of the channel the application
  sends into); \<open>stop_loop\<close> takes, for each iteration, whether its deadline has passed;
  \<open>serve\<close> takes the clock, the stop flag, the events and the iteration order of the hash map. A list of
  inputs that is used up leaves the loop running (\<open>Next\<close>, or \<open>None\<close> for \<open>serve\<close>); no claim rests on
  that bound, since each holds for every list or says what must occur in it. Loops that end by
  themselves are total functions with a measure: \<open>drain_events\<close> ends because a notification that makes
  new events leaves the queue.

  Constants of the code that appear in the claims: 128 commands per round and queued notifications, 16
  send-request slots, 31 bytes of advertising, values of 512 bytes, 128 commands in the channel (from
  which the 130 steps of the worker after Stop follow), 256 received packets, the 20 seconds of the
  start-up (in nanoseconds).

  \<^bold>\<open>Parameters\<close>

  BTstack is a git submodule that is not part of the repository, and nusb a third-party crate. They are
  arguments of the model. Nothing is assumed of BTstack but that its calls return; a claim that needs
  more (a controller that never reports advertising as enabled, for instance) says so. Of nusb the model
  uses that waiting on an endpoint without a submitted transfer panics, and proves that it never
  happens. Handlers and transports are arbitrary functions that may fail or panic.

  \<^bold>\<open>Not modelled\<close>

  The memory pools and the empty hal functions of the shim, the clearing of its callback registration,
  tracing and the text printed to the terminal, the time spent in blocking receives, the alignment and
  lifetime of the raw buffers, the usage text, the build scripts, the Kotlin application with its
  generated bindings, and the tests that need files, a device or a controller.
\<close>

end
